theory Spec2Isabelle
  imports Main "HOL-Library.Sublist"
begin

text \<open>
  A model of the identifier resolution and extraction pipeline of the paper extractor:
  the entity annotator, the document fetcher and the pipeline of \<open>extractor.py\<close>, the
  storage of \<open>storage.py\<close>, the mapping import and the identifier conversion of
  \<open>help.py\<close>, the batch watcher of \<open>batch_processor.py\<close> and the extraction route of
  \<open>api.py\<close>. Functions keep the names of the source. A function that calls a remote
  service, the database or the file system takes the world (the configuration and what
  the outside answers) and the state (the two tables and the events so far) and returns
  its result with the new state; an exception that leaves a function is an \<open>Inl\<close>
  result.
\<close>

section \<open>Python strings\<close>

text \<open>
  A Python \<open>str\<close> is modelled as a \<open>string\<close> (a list of characters), one \<open>char\<close> per
  code point; the model covers the ASCII range, where \<open>str.upper\<close> maps \<open>a..z\<close> to
  \<open>A..Z\<close> (it clears bit 5 of the code) and leaves every other character alone.
  No character outside ASCII has an upper-case form that begins with \<open>P\<close>, \<open>M\<close> or
  \<open>C\<close>, so the prefix tests of the source read the same on this model.
\<close>

definition upper_char :: "char \<Rightarrow> char" where
  "upper_char c =
     (if 97 \<le> (of_char c :: nat) \<and> (of_char c :: nat) \<le> 122
      then (case c of Char b0 b1 b2 b3 b4 b5 b6 b7 \<Rightarrow> Char b0 b1 b2 b3 b4 False b6 b7)
      else c)"

definition upper :: "string \<Rightarrow> string" where
  "upper s = map upper_char s"

definition startswith :: "string \<Rightarrow> string \<Rightarrow> bool" where
  "startswith s p = prefix p s"

text \<open>The two forms of the prefix guard of the source:
  \<open>if not p.startswith("PMC"): p = f"PMC{p}"\<close>, which looks at the case, and
  \<open>if not p.upper().startswith("PMC"): p = f"PMC{p}"\<close>, which does not.\<close>

definition ensure_pmc :: "string \<Rightarrow> string" where
  "ensure_pmc p = (if \<not> startswith p ''PMC'' then ''PMC'' @ p else p)"

definition ensure_pmc_any_case :: "string \<Rightarrow> string" where
  "ensure_pmc_any_case p = (if \<not> startswith (upper p) ''PMC'' then ''PMC'' @ p else p)"

text \<open>\<open>str.strip()\<close>: the ASCII whitespace characters are the codes 9 to 13, 28 to 31
  and 32.\<close>

definition is_space :: "char \<Rightarrow> bool" where
  "is_space c =
     (let n = (of_char c :: nat) in (9 \<le> n \<and> n \<le> 13) \<or> (28 \<le> n \<and> n \<le> 31) \<or> n = 32)"

definition strip :: "string \<Rightarrow> string" where
  "strip s = rev (dropWhile is_space (rev (dropWhile is_space s)))"






section \<open>Data model\<close>

text \<open>
  One annotation of the BERN2 response (a JSON object); a key that is absent is \<open>None\<close>.
  \<open>ann_span\<close> holds the \<open>begin\<close> and \<open>end\<close> keys of the \<open>span\<close> object.
\<close>

record annotation =
  ann_mention :: "string option"
  ann_obj :: "string option"
  ann_span :: "(int option \<times> int option) option"
  ann_id :: "string list option"

text \<open>The entity dictionary built by \<open>fetch_entities_from_bern\<close>.\<close>

record entity =
  ent_text :: string
  ent_type :: string
  ent_identifier :: "string option"
  ent_start :: int
  ent_end :: int

text \<open>The figure dictionary: \<open>{"caption": ..., "url": ..., "entities": ...}\<close>.\<close>

record figure =
  caption :: string
  url :: "string option"
  entities :: "entity list"

text \<open>The dictionary returned by \<open>fetch_bioc_paper\<close>.\<close>

record paper =
  pmcid :: string
  title :: string
  abstract :: string
  figures :: "figure list"

section \<open>The outside world\<close>

text \<open>
  Every call that leaves the process is recorded as an event, in order. Logging is not
  modelled: no function of the source reads the log.
\<close>

datatype db_op =
    Connect
  | Create_publications
  | Upsert_publication string
  | Select_publication string
  | Show_tables
  | Select_pmcid string
  | Drop_mapping
  | Create_mapping
  | Upsert_mappings "(string \<times> string) list"

text \<open>What is written to a file: the text of a response, or the five counts of the
  summary that \<open>process_file\<close> writes (total, available, success, failed, skipped).\<close>

datatype file_content = Text string | Summary nat nat nat nat nat

datatype event =
    Bern_post string
  | Sleep nat
  | Http_get string
  | Http_head string
  | Idconv_get string
  | Pubmed_search string
  | File_read string
  | File_write string file_content
  | File_rename string string
  | Db db_op

text \<open>The answer of the annotation service to one request: anything that raises inside
  the \<open>try\<close> block (transport error, error status, a body that is not the expected
  JSON), or the list under the key \<open>annotations\<close> (empty when the key is absent).\<close>

datatype bern_response = Bern_raises | Bern_json "annotation list"

text \<open>
  An XML element as \<open>xml.etree.ElementTree\<close> holds it: tag, attributes, the text before
  the first child, the text after the closing tag, and the children.
\<close>

datatype element =
  Element (tag: string) (attrib: "(string \<times> string) list") (etext: "string option")
    (tail: "string option") (children: "element list")

text \<open>The answer to \<open>requests.get\<close> on the BioC endpoint: a transport error, or a
  response with its status code, its text, and the text as \<open>ET.fromstring\<close> reads it
  (\<open>None\<close> when it does not parse).\<close>

datatype http_response = Transport_error | Response nat string "element option"

text \<open>The answer of the identifier conversion service: a \<open>RequestException\<close>, a body
  that makes the parsing code raise another exception, or the \<open>records\<close> list, each
  record with its \<open>pmcid\<close> key if it has one.\<close>

datatype idconv_response =
    Idconv_request_exception
  | Idconv_malformed
  | Idconv_records "string option list"

text \<open>
  The configuration values of \<open>config.py\<close> and the behaviour of everything outside the
  process. An oracle takes the number of events recorded so far, so that two calls with
  the same arguments may be answered differently.
\<close>

record world =
  enable_entity_extraction :: bool
  ncbi_api_key :: string
  batch_size :: int
  post_bern :: "nat \<Rightarrow> string \<Rightarrow> bern_response"
  http_get :: "nat \<Rightarrow> string \<Rightarrow> http_response"
  http_head :: "nat \<Rightarrow> string \<Rightarrow> nat option"
  idconv_get :: "nat \<Rightarrow> string \<Rightarrow> idconv_response"
  read_lines :: "nat \<Rightarrow> string \<Rightarrow> string list option"
  write_ok :: "nat \<Rightarrow> string \<Rightarrow> bool"
  rename_ok :: "nat \<Rightarrow> string \<Rightarrow> bool"
  db_raises :: "nat \<Rightarrow> db_op \<Rightarrow> bool"

text \<open>
  A database table with a primary key: the rows in insertion order, each with its key.
  The process state is the two tables of the DuckDB file (\<open>pmid_to_pmcid\<close> is \<open>None\<close>
  until an import creates it) and the events so far.
\<close>

type_synonym publication_row = "string \<times> string \<times> figure list"

record state =
  trace :: "event list"
  publications :: "(string \<times> publication_row) list"
  pmid_to_pmcid :: "(string \<times> string) list option"

definition now :: "state \<Rightarrow> nat" where
  "now s = length (trace s)"

definition emit :: "event \<Rightarrow> state \<Rightarrow> state" where
  "emit e s = s\<lparr>trace := trace s @ [e]\<rparr>"

text \<open>The exceptions that leave a function of the source: the \<open>ValueError\<close> that
  \<open>process_paper_id\<close> raises, with its message; an exception of the database layer
  (\<open>os.makedirs\<close>, \<open>duckdb.connect\<close>, a statement); an exception raised while a
  response of the conversion service is read.\<close>

datatype error = Value_error string | Db_error | Response_error

text \<open>One call into the database layer: it is recorded, and the world says whether it
  raises. The caller applies the statement's effect when it did not.\<close>

definition db_exec :: "world \<Rightarrow> db_op \<Rightarrow> state \<Rightarrow> bool \<times> state" where
  "db_exec w op s = (\<not> db_raises w (now s) op, emit (Db op) s)"

section \<open>Storage (storage.py)\<close>

text \<open>
  \<open>INSERT OR REPLACE\<close> into a table with a primary key: a row with the same key is
  deleted, then the new row is inserted.
\<close>

definition insert_or_replace :: "'k \<Rightarrow> 'v \<Rightarrow> ('k \<times> 'v) list \<Rightarrow> ('k \<times> 'v) list" where
  "insert_or_replace k v rows = filter (\<lambda>r. fst r \<noteq> k) rows @ [(k, v)]"

text \<open>\<open>init_db\<close>: create the directory, connect, \<open>CREATE TABLE IF NOT EXISTS\<close>. An
  exception is not caught here. The table \<open>publications\<close> of the state is empty until a
  row is inserted, so creating it changes nothing.\<close>

definition init_db :: "world \<Rightarrow> state \<Rightarrow> (error + unit) \<times> state" where
  "init_db w s =
     (case db_exec w Connect s of
        (False, s1) \<Rightarrow> (Inl Db_error, s1)
      | (True, s1) \<Rightarrow>
          (case db_exec w Create_publications s1 of
             (False, s2) \<Rightarrow> (Inl Db_error, s2)
           | (True, s2) \<Rightarrow> (Inr (), s2)))"

text \<open>\<open>insert_paper\<close>: the statement runs inside \<open>try\<close>; an exception is logged and
  not raised again, so the function always returns. The column \<open>figures_json\<close> holds
  \<open>json.dumps(data["figures"])\<close>, modelled by the list it serialises.\<close>

definition insert_paper :: "world \<Rightarrow> paper \<Rightarrow> state \<Rightarrow> state" where
  "insert_paper w data s =
     (case db_exec w (Upsert_publication (pmcid data)) s of
        (True, s1) \<Rightarrow>
          s1\<lparr>publications :=
               insert_or_replace (pmcid data) (title data, abstract data, figures data)
                 (publications s1)\<rparr>
      | (False, s1) \<Rightarrow> s1)"

section \<open>Mapping import (help.py)\<close>






section \<open>Entity annotator (extractor.py)\<close>

definition entity_of :: "annotation \<Rightarrow> entity" where
  "entity_of ann =
     \<lparr>ent_text = (case ann_mention ann of None \<Rightarrow> [] | Some m \<Rightarrow> m),
      ent_type = (case ann_obj ann of None \<Rightarrow> ''unknown'' | Some t \<Rightarrow> t),
      ent_identifier =
        (case ann_id ann of None \<Rightarrow> None | Some [] \<Rightarrow> None | Some (i # _) \<Rightarrow> Some i),
      ent_start =
        (case ann_span ann of None \<Rightarrow> 0
         | Some (b, _) \<Rightarrow> (case b of None \<Rightarrow> 0 | Some n \<Rightarrow> n)),
      ent_end =
        (case ann_span ann of None \<Rightarrow> 0
         | Some (_, e) \<Rightarrow> (case e of None \<Rightarrow> 0 | Some n \<Rightarrow> n))\<rparr>"

text \<open>
  The loop \<open>for attempt in range(max_retries)\<close>, over the attempts still to run. A
  request that raises is followed by \<open>time.sleep(2 * (attempt + 1))\<close>; when the list is
  used up the function returns the empty list.
\<close>

fun bern_loop :: "world \<Rightarrow> string \<Rightarrow> nat list \<Rightarrow> state \<Rightarrow> entity list \<times> state" where
  "bern_loop w cap [] s = ([], s)"
| "bern_loop w cap (attempt # rest) s =
     (case post_bern w (now s) cap of
        Bern_json anns \<Rightarrow> (map entity_of anns, emit (Bern_post cap) s)
      | Bern_raises \<Rightarrow>
          bern_loop w cap rest (emit (Sleep (2 * (attempt + 1))) (emit (Bern_post cap) s)))"

definition fetch_entities_from_bern ::
  "world \<Rightarrow> string \<Rightarrow> nat \<Rightarrow> state \<Rightarrow> entity list \<times> state" where
  "fetch_entities_from_bern w cap max_retries s =
     (if \<not> enable_entity_extraction w then ([], s)
      else if length cap < 20 then ([], s)
      else bern_loop w cap [0..<max_retries] s)"

section \<open>Reading the element tree (xml.etree.ElementTree)\<close>

text \<open>All elements below \<open>e\<close>, in document order (\<open>e.iter()\<close> without \<open>e\<close> itself).\<close>

fun descendants :: "element \<Rightarrow> element list" where
  "descendants (Element t a x ta cs) = concat (map (\<lambda>c. c # descendants c) cs)"

text \<open>\<open>e.findall(".//t")\<close>, \<open>e.findall("t")\<close>, \<open>e.find("t")\<close> and \<open>e.get(k)\<close>.\<close>

definition findall_desc :: "element \<Rightarrow> string \<Rightarrow> element list" where
  "findall_desc e t = filter (\<lambda>d. tag d = t) (descendants e)"

definition findall_child :: "element \<Rightarrow> string \<Rightarrow> element list" where
  "findall_child e t = filter (\<lambda>c. tag c = t) (children e)"

definition find_child :: "element \<Rightarrow> string \<Rightarrow> element option" where
  "find_child e t = (case findall_child e t of [] \<Rightarrow> None | c # _ \<Rightarrow> Some c)"

definition get_attr :: "element \<Rightarrow> string \<Rightarrow> string option" where
  "get_attr e k = map_of (attrib e) k"

text \<open>\<open>"".join(e.itertext())\<close>: the text of \<open>e\<close> and of everything inside it.\<close>

fun itertext :: "element \<Rightarrow> string" where
  "itertext (Element t a x ta cs) =
     (case x of None \<Rightarrow> [] | Some s \<Rightarrow> s) @
     concat (map (\<lambda>c. itertext c @ (case tail c of None \<Rightarrow> [] | Some s \<Rightarrow> s)) cs)"

text \<open>
  \<open>doc.findall(".//passage/infon[@key='k'][.='v']/..")\<close>: the passages below \<open>doc\<close> that
  have a child \<open>infon\<close> with the attribute \<open>key\<close> equal to \<open>k\<close> and the text \<open>v\<close>. The
  path yields each parent once, in document order.
\<close>

definition passages_with :: "element \<Rightarrow> string \<Rightarrow> string \<Rightarrow> element list" where
  "passages_with doc k v =
     filter (\<lambda>p. list_ex (\<lambda>i. get_attr i ''key'' = Some k \<and> itertext i = v)
                    (findall_child p ''infon''))
       (findall_desc doc ''passage'')"

text \<open>The test \<open>text_elem is not None and text_elem.text\<close> for the child \<open>text\<close> of a
  passage: its text when there is one and it is not empty.\<close>

definition passage_text :: "element \<Rightarrow> string option" where
  "passage_text p =
     (case find_child p ''text'' of
        None \<Rightarrow> None
      | Some t \<Rightarrow> (case etext t of None \<Rightarrow> None | Some s \<Rightarrow> if s = [] then None else Some s))"

section \<open>Document fetcher (extractor.py)\<close>

text \<open>A Python value that is a string or \<open>None\<close> is a \<open>string option\<close>; it is true in
  a condition when it is a string that is not empty.\<close>

definition truthy :: "string option \<Rightarrow> bool" where
  "truthy v = (case v of None \<Rightarrow> False | Some s \<Rightarrow> s \<noteq> [])"

text \<open>The title loop of one document: the text of the first title passage that has
  one (\<open>break\<close>).\<close>

fun first_text :: "element list \<Rightarrow> string option" where
  "first_text [] = None"
| "first_text (e # es) = (case passage_text e of Some t \<Rightarrow> Some t | None \<Rightarrow> first_text es)"

text \<open>The abstract loop: every text is appended to what is there, after a space when
  that is not empty.\<close>

fun abstract_loop :: "element list \<Rightarrow> string \<Rightarrow> string" where
  "abstract_loop [] a = a"
| "abstract_loop (e # es) a =
     (case passage_text e of
        Some t \<Rightarrow> abstract_loop es (if a \<noteq> [] then a @ '' '' @ t else t)
      | None \<Rightarrow> abstract_loop es a)"

text \<open>The URL of a figure: the text of the last child \<open>infon\<close> whose key is \<open>url\<close>,
  \<open>file\<close> or \<open>fig_url\<close>.\<close>

definition figure_url :: "element \<Rightarrow> string option" where
  "figure_url fig_elem =
     foldl (\<lambda>u infon.
              if get_attr infon ''key'' \<in> {Some ''url'', Some ''file'', Some ''fig_url''}
              then etext infon else u)
       None (findall_child fig_elem ''infon'')"

text \<open>The figure loop: every figure passage with a text gives one figure, annotated at
  once by \<open>fetch_entities_from_bern\<close>.\<close>

fun figure_loop :: "world \<Rightarrow> element list \<Rightarrow> figure list \<Rightarrow> state \<Rightarrow> figure list \<times> state" where
  "figure_loop w [] figs s = (figs, s)"
| "figure_loop w (e # es) figs s =
     (case passage_text e of
        None \<Rightarrow> figure_loop w es figs s
      | Some cap \<Rightarrow>
          (case fetch_entities_from_bern w cap 3 s of
             (ents, s1) \<Rightarrow>
               figure_loop w es (figs @ [\<lparr>caption = cap, url = figure_url e, entities = ents\<rparr>]) s1))"

text \<open>The three variables that the loop over the documents carries. The title may
  become \<open>None\<close>: an \<open>infon\<close> element without text has \<open>text = None\<close>.\<close>

record parse_vars =
  pv_title :: "string option"
  pv_abstract :: string
  pv_figures :: "figure list"

definition title_elements :: "element \<Rightarrow> element list" where
  "title_elements doc =
     passages_with doc ''section_type'' ''TITLE'' @ passages_with doc ''type'' ''title''"

definition abstract_elements :: "element \<Rightarrow> element list" where
  "abstract_elements doc =
     passages_with doc ''section_type'' ''ABSTRACT'' @ passages_with doc ''type'' ''abstract''"

definition figure_elements :: "element \<Rightarrow> element list" where
  "figure_elements doc =
     passages_with doc ''section_type'' ''FIG'' @ passages_with doc ''section_type'' ''FIGURE'' @
     passages_with doc ''type'' ''fig'' @ passages_with doc ''type'' ''figure-caption''"

text \<open>The first \<open>infon\<close> of a list whose key is \<open>article-title\<close> gives the title (its
  text, possibly \<open>None\<close>); without one the title stays.\<close>

definition article_title :: "element list \<Rightarrow> string option \<Rightarrow> string option" where
  "article_title infons t =
     (case filter (\<lambda>i. get_attr i ''key'' = Some ''article-title'') infons of
        [] \<Rightarrow> t
      | i # _ \<Rightarrow> etext i)"

text \<open>The body of \<open>for document in documents\<close>.\<close>

definition document_step :: "world \<Rightarrow> element \<Rightarrow> parse_vars \<Rightarrow> state \<Rightarrow> parse_vars \<times> state" where
  "document_step w doc pv s =
     (let title1 = (case first_text (title_elements doc) of
                      Some t \<Rightarrow> Some t
                    | None \<Rightarrow> pv_title pv);
          abstract1 = abstract_loop (abstract_elements doc) (pv_abstract pv)
      in case figure_loop w (figure_elements doc) (pv_figures pv) s of
           (figs, s1) \<Rightarrow>
             (\<lparr>pv_title = (if \<not> truthy title1
                            then article_title (findall_child doc ''infon'') title1
                            else title1),
               pv_abstract = abstract1,
               pv_figures = figs\<rparr>, s1))"

fun documents_loop :: "world \<Rightarrow> element list \<Rightarrow> parse_vars \<Rightarrow> state \<Rightarrow> parse_vars \<times> state" where
  "documents_loop w [] pv s = (pv, s)"
| "documents_loop w (doc # docs) pv s =
     (case document_step w doc pv s of (pv1, s1) \<Rightarrow> documents_loop w docs pv1 s1)"

text \<open>Everything between \<open>ET.fromstring\<close> and the final test: the loop over the
  documents, then the title of the collection when there is still none.\<close>

definition extract_fields :: "world \<Rightarrow> element \<Rightarrow> state \<Rightarrow> parse_vars \<times> state" where
  "extract_fields w root s =
     (case documents_loop w (findall_desc root ''document'')
             \<lparr>pv_title = Some [], pv_abstract = [], pv_figures = []\<rparr> s of
        (pv, s1) \<Rightarrow>
          (if \<not> truthy (pv_title pv)
           then pv\<lparr>pv_title := article_title (findall_desc root ''infon'') (pv_title pv)\<rparr>
           else pv, s1))"

definition bioc_url :: "world \<Rightarrow> string \<Rightarrow> string \<Rightarrow> string \<Rightarrow> string" where
  "bioc_url w pmc_id fmt encoding =
     (let base_url = ''https://www.ncbi.nlm.nih.gov/research/bionlp/RESTful/pmcoa.cgi/BioC_'' @
                     fmt @ ''/'' @ pmc_id @ ''/'' @ encoding
      in if ncbi_api_key w \<noteq> [] then base_url @ ''?api_key='' @ ncbi_api_key w else base_url)"

text \<open>
  \<open>fetch_bioc_paper\<close>. Every exception inside the \<open>try\<close> ends in \<open>return None\<close>: a
  transport error, an error status (the two branches for 404 and for the other codes
  differ in the logged message only), a response file that cannot be written, a text
  that does not parse, and \<open>len(title)\<close> when the title is \<open>None\<close>. With the format
  \<open>json\<close> the function returns \<open>None\<close> as well. A document is returned when one of
  title, abstract and figures is not empty.
\<close>

definition fetch_bioc_paper ::
  "world \<Rightarrow> string \<Rightarrow> string \<Rightarrow> string \<Rightarrow> state \<Rightarrow> paper option \<times> state" where
  "fetch_bioc_paper w pmc_id0 fmt encoding s =
     (let pmc_id = ensure_pmc pmc_id0;
          u = bioc_url w pmc_id fmt encoding;
          s1 = emit (Http_get u) s
      in case http_get w (now s) u of
           Transport_error \<Rightarrow> (None, s1)
         | Response code txt body \<Rightarrow>
             if 400 \<le> code \<and> code < 600 then
               (if code = 404 then (None, s1) else (None, s1))
             else
               let s2 = emit (File_write (pmc_id @ ''_response.xml'') (Text txt)) s1 in
               if \<not> write_ok w (now s1) (pmc_id @ ''_response.xml'') then (None, s2)
               else if fmt = ''json'' then (None, s2)
               else
                 (case body of
                    None \<Rightarrow> (None, s2)
                  | Some root \<Rightarrow>
                      (case extract_fields w root s2 of
                         (pv, s3) \<Rightarrow>
                           (case pv_title pv of
                              None \<Rightarrow> (None, s3)
                            | Some t \<Rightarrow>
                                if t \<noteq> [] \<or> pv_abstract pv \<noteq> [] \<or> pv_figures pv \<noteq> [] then
                                  (Some \<lparr>pmcid = pmc_id, title = t, abstract = pv_abstract pv,
                                         figures = pv_figures pv\<rparr>, s3)
                                else (None, s3)))))"

section \<open>Identifier resolution (extractor.py, help.py)\<close>

text \<open>
  \<open>get_pmcid_from_database\<close>: connect, \<open>SHOW TABLES\<close>, then the \<open>SELECT\<close> on the
  stripped PMID. Any exception gives \<open>None\<close>, and so does a missing table or a missing
  row. A PMCID that is found gets the prefix unless it has it in some case.
\<close>

definition get_pmcid_from_database :: "world \<Rightarrow> string \<Rightarrow> state \<Rightarrow> string option \<times> state" where
  "get_pmcid_from_database w pmid s =
     (case db_exec w Connect s of
        (False, s1) \<Rightarrow> (None, s1)
      | (True, s1) \<Rightarrow>
     (case db_exec w Show_tables s1 of
        (False, s2) \<Rightarrow> (None, s2)
      | (True, s2) \<Rightarrow>
     (case pmid_to_pmcid s2 of
        None \<Rightarrow> (None, s2)
      | Some tbl \<Rightarrow>
     (case db_exec w (Select_pmcid (strip pmid)) s2 of
        (False, s3) \<Rightarrow> (None, s3)
      | (True, s3) \<Rightarrow>
          (case map_of tbl (strip pmid) of
             None \<Rightarrow> (None, s3)
           | Some p \<Rightarrow>
               (Some (ensure_pmc_any_case p), s3))))))"

text \<open>
  \<open>convert_pmid_to_pmcid\<close>: up to 3 requests. A \<open>RequestException\<close> is followed by a
  pause of \<open>retry_delay\<close> (2, then 4) and another request, except after the last attempt,
  which returns \<open>None\<close>. An answer gives the \<open>pmcid\<close> of the first record that has one,
  else \<open>None\<close>. Any other exception leaves the function.
\<close>

fun idconv_loop ::
  "world \<Rightarrow> string \<Rightarrow> nat \<Rightarrow> nat list \<Rightarrow> nat \<Rightarrow> state \<Rightarrow> (error + string option) \<times> state" where
  "idconv_loop w pmid max_retries [] retry_delay s = (Inr None, s)"
| "idconv_loop w pmid max_retries (attempt # rest) retry_delay s =
     (let s1 = emit (Idconv_get pmid) s in
      case idconv_get w (now s) pmid of
        Idconv_records recs \<Rightarrow>
          (case List.map_filter id recs of
             [] \<Rightarrow> (Inr None, s1)
           | p # _ \<Rightarrow> (Inr (Some p), s1))
      | Idconv_malformed \<Rightarrow> (Inl Response_error, s1)
      | Idconv_request_exception \<Rightarrow>
          if attempt < max_retries - 1
          then idconv_loop w pmid max_retries rest (retry_delay * 2) (emit (Sleep retry_delay) s1)
          else (Inr None, s1))"

definition convert_pmid_to_pmcid ::
  "world \<Rightarrow> string \<Rightarrow> state \<Rightarrow> (error + string option) \<times> state" where
  "convert_pmid_to_pmcid w pmid s = idconv_loop w pmid 3 [0..<3] 2 s"

text \<open>
  Steps 1 and 2 of \<open>process_paper_id\<close>: the identifier that is handed to the fetch. An
  identifier that starts with \<open>PMC\<close> in some case is left as it is; any other one is
  looked up in the database, then converted by the remote service, and the
  \<open>ValueError\<close> is raised when both give nothing.
\<close>

definition resolve_paper_id :: "world \<Rightarrow> string \<Rightarrow> state \<Rightarrow> (error + string) \<times> state" where
  "resolve_paper_id w pmc_id s =
     (case (if \<not> startswith (upper pmc_id) ''PMC'' then
              (case get_pmcid_from_database w pmc_id s of
                 (db_pmcid, s1) \<Rightarrow>
                   if truthy db_pmcid then (Inr (the db_pmcid), s1)
                   else
                     (case convert_pmid_to_pmcid w pmc_id s1 of
                        (Inl e, s2) \<Rightarrow> (Inl e, s2)
                      | (Inr api_pmcid, s2) \<Rightarrow>
                          if truthy api_pmcid then (Inr (the api_pmcid), s2)
                          else (Inl (Value_error (''Failed to fetch paper: PMID '' @ pmc_id @
                                       '' has no corresponding PMCID'')), s2)))
            else (Inr pmc_id, s)) of
        (Inl e, s3) \<Rightarrow> (Inl e, s3)
      | (Inr p, s3) \<Rightarrow>
          (Inr (ensure_pmc_any_case p), s3))"

section \<open>Extraction pipeline (extractor.py)\<close>

text \<open>The second annotation, in \<open>process_paper_id\<close>: a caption longer than 20 characters
  is annotated again, and any other figure gets the empty entity list.\<close>

fun annotate_figures :: "world \<Rightarrow> figure list \<Rightarrow> state \<Rightarrow> figure list \<times> state" where
  "annotate_figures w [] s = ([], s)"
| "annotate_figures w (f # fs) s =
     (if length (caption f) > 20 then
        (case fetch_entities_from_bern w (caption f) 3 s of
           (ents, s1) \<Rightarrow>
             (case annotate_figures w fs s1 of
                (fs', s2) \<Rightarrow> (f\<lparr>entities := ents\<rparr> # fs', s2)))
      else
        (case annotate_figures w fs s of
           (fs', s2) \<Rightarrow> (f\<lparr>entities := []\<rparr> # fs', s2)))"

text \<open>The block \<open>if ENABLE_ENTITY_EXTRACTION and paper_data.get("figures")\<close>.\<close>

definition annotate_paper :: "world \<Rightarrow> paper \<Rightarrow> state \<Rightarrow> paper \<times> state" where
  "annotate_paper w paper_data s =
     (if enable_entity_extraction w \<and> figures paper_data \<noteq> []
      then (case annotate_figures w (figures paper_data) s of
              (figs, s1) \<Rightarrow> (paper_data\<lparr>figures := figs\<rparr>, s1))
      else (paper_data, s))"

text \<open>
  \<open>process_paper_id\<close>: resolve, fetch (a result of \<open>None\<close> raises the \<open>ValueError\<close>),
  annotate when extraction is enabled and there are figures, \<open>init_db\<close> (whose
  exceptions are not caught), \<open>insert_paper\<close>, and return the document.
\<close>

definition process_paper_id :: "world \<Rightarrow> string \<Rightarrow> state \<Rightarrow> (error + paper) \<times> state" where
  "process_paper_id w raw s =
     (case resolve_paper_id w raw s of
        (Inl e, s1) \<Rightarrow> (Inl e, s1)
      | (Inr pmc_id, s1) \<Rightarrow>
     (case fetch_bioc_paper w pmc_id ''xml'' ''unicode'' s1 of
        (None, s2) \<Rightarrow> (Inl (Value_error (''Failed to fetch paper with ID: '' @ pmc_id)), s2)
      | (Some paper_data, s2) \<Rightarrow>
     (case annotate_paper w paper_data s2 of
        (paper_data1, s3) \<Rightarrow>
     (case init_db w s3 of
        (Inl e, s4) \<Rightarrow> (Inl e, s4)
      | (Inr _, s4) \<Rightarrow> (Inr paper_data1, insert_paper w paper_data1 s4)))))"

section \<open>Batch watcher (batch_processor.py)\<close>






text \<open>The inner loop \<open>for paper_info in batch\<close>: one call of the pipeline per entry,
  counted as a success when it returns and as a failure when it raises.\<close>

fun batch_loop ::
  "world \<Rightarrow> (string \<times> string) list \<Rightarrow> nat \<times> nat \<Rightarrow> state \<Rightarrow> (nat \<times> nat) \<times> state" where
  "batch_loop w [] c s = (c, s)"
| "batch_loop w (paper_info # rest) (success_count, fail_count) s =
     (case process_paper_id w (snd paper_info) s of
        (Inr result, s1) \<Rightarrow> batch_loop w rest (success_count + 1, fail_count) s1
      | (Inl e, s1) \<Rightarrow> batch_loop w rest (success_count, fail_count + 1) s1)"






section \<open>Request layer (api.py)\<close>

text \<open>One entry of the answer of \<open>POST /extract\<close>; \<open>resp_error\<close> is the exception whose
  text the entry carries.\<close>

record extract_response =
  resp_id :: string
  resp_status :: string
  resp_error :: "error option"
  resp_note :: "string option"

text \<open>The query \<open>SELECT pmcid FROM publications WHERE pmcid = ?\<close> on a new connection:
  whether a row was found, or \<open>None\<close> when the database raises.\<close>

definition select_publication :: "world \<Rightarrow> string \<Rightarrow> state \<Rightarrow> bool option \<times> state" where
  "select_publication w key s =
     (case db_exec w Connect s of
        (False, s1) \<Rightarrow> (None, s1)
      | (True, s1) \<Rightarrow>
          (case db_exec w (Select_publication key) s1 of
             (False, s2) \<Rightarrow> (None, s2)
           | (True, s2) \<Rightarrow> (Some (map_of (publications s2) key \<noteq> None), s2)))"

definition run_extraction :: "world \<Rightarrow> string \<Rightarrow> state \<Rightarrow> extract_response \<times> state" where
  "run_extraction w pid s =
     (case process_paper_id w pid s of
        (Inr result, s1) \<Rightarrow>
          (\<lparr>resp_id = pid, resp_status = ''success'', resp_error = None, resp_note = None\<rparr>, s1)
      | (Inl e, s1) \<Rightarrow>
          (\<lparr>resp_id = pid, resp_status = ''failed'', resp_error = Some e, resp_note = None\<rparr>, s1))"

text \<open>
  The body of the loop of \<open>extract_papers\<close> for one identifier. A document that is
  already stored (under the upper-case identifier, or under the PMCID the identifier maps
  to) is not extracted again; otherwise the pipeline runs, and the entry is a success
  when it returns and a failure when it raises.
\<close>

definition extract_one :: "world \<Rightarrow> string \<Rightarrow> state \<Rightarrow> extract_response \<times> state" where
  "extract_one w pid s =
     (if startswith (upper pid) ''PMC'' then
        (case select_publication w (upper pid) s of
           (None, s1) \<Rightarrow>
             (\<lparr>resp_id = pid, resp_status = ''failed'', resp_error = Some Db_error,
               resp_note = None\<rparr>, s1)
         | (Some True, s1) \<Rightarrow>
             (\<lparr>resp_id = pid, resp_status = ''success'', resp_error = None,
               resp_note = Some ''Retrieved from database''\<rparr>, s1)
         | (Some False, s1) \<Rightarrow> run_extraction w pid s1)
      else
        (case get_pmcid_from_database w pid s of
           (p, s1) \<Rightarrow>
             if truthy p then
               (case select_publication w (upper (the p)) s1 of
                  (None, s2) \<Rightarrow>
                    (\<lparr>resp_id = pid, resp_status = ''failed'', resp_error = Some Db_error,
                      resp_note = None\<rparr>, s2)
                | (Some True, s2) \<Rightarrow>
                    (\<lparr>resp_id = pid, resp_status = ''success'', resp_error = None,
                      resp_note = Some (''Retrieved from database as '' @ the p)\<rparr>, s2)
                | (Some False, s2) \<Rightarrow> run_extraction w pid s2)
             else run_extraction w pid s1))"

fun extract_papers :: "world \<Rightarrow> string list \<Rightarrow> state \<Rightarrow> extract_response list \<times> state" where
  "extract_papers w [] s = ([], s)"
| "extract_papers w (pid # rest) s =
     (case extract_one w pid s of
        (r, s1) \<Rightarrow> (case extract_papers w rest s1 of (rs, s2) \<Rightarrow> (r # rs, s2)))"

section \<open>Reading the trace\<close>

fun is_bern_post :: "event \<Rightarrow> bool" where
  "is_bern_post (Bern_post c) = True"
| "is_bern_post e = False"

fun sleeps :: "event list \<Rightarrow> nat list" where
  "sleeps [] = []"
| "sleeps (Sleep n # es) = n # sleeps es"
| "sleeps (e # es) = sleeps es"

text \<open>The events of one failed attempt, and of the first \<open>k\<close> attempts when all fail.\<close>

definition failed_attempt :: "string \<Rightarrow> nat \<Rightarrow> event list" where
  "failed_attempt cap attempt = [Bern_post cap, Sleep (2 * (attempt + 1))]"

definition failed_attempts :: "string \<Rightarrow> nat \<Rightarrow> event list" where
  "failed_attempts cap k = concat (map (failed_attempt cap) [0..<k])"

section \<open>Concrete worlds\<close>

text \<open>A world in which every remote service is unreachable and the local disk works.\<close>

definition offline_world :: world where
  "offline_world =
     \<lparr>enable_entity_extraction = True, ncbi_api_key = [], batch_size = 10,
      post_bern = (\<lambda>_ _. Bern_raises), http_get = (\<lambda>_ _. Transport_error),
      http_head = (\<lambda>_ _. None), idconv_get = (\<lambda>_ _. Idconv_request_exception),
      read_lines = (\<lambda>_ _. None), write_ok = (\<lambda>_ _. True), rename_ok = (\<lambda>_ _. True),
      db_raises = (\<lambda>_ _. False)\<rparr>"

definition empty_state :: state where
  "empty_state = \<lparr>trace = [], publications = [], pmid_to_pmcid = None\<rparr>"

text \<open>A caption of 24 characters and one of 5.\<close>

definition long_caption :: string where
  "long_caption = ''Tumor cells express EGFR''"

definition short_caption :: string where
  "short_caption = ''Fig 1''"

section \<open>Concrete inputs of the mapping import\<close>







section \<open>Concrete documents\<close>

definition paper_v1 :: paper where
  "paper_v1 = \<lparr>pmcid = ''PMC123'', title = ''Old title'', abstract = ''Old abstract'',
               figures = []\<rparr>"

definition paper_v2 :: paper where
  "paper_v2 = \<lparr>pmcid = ''PMC123'', title = ''New title'', abstract = [],
               figures = [\<lparr>caption = short_caption, url = None, entities = []\<rparr>]\<rparr>"

section \<open>Concrete XML and concrete services\<close>

text \<open>Elements of a BioC collection as the parser reads them, a world whose document
  service answers every request with one status and one collection, and the URL of the
  running example.\<close>

definition infon_elem :: "string \<Rightarrow> string \<Rightarrow> element" where
  "infon_elem k v = Element ''infon'' [(''key'', k)] (Some v) None []"

definition text_elem :: "string \<Rightarrow> element" where
  "text_elem s = Element ''text'' [] (Some s) None []"

definition passage_elem :: "string \<Rightarrow> string \<Rightarrow> string \<Rightarrow> element" where
  "passage_elem k v s = Element ''passage'' [] None None [infon_elem k v, text_elem s]"

definition document_elem :: "element list \<Rightarrow> element" where
  "document_elem ps = Element ''document'' [] None None ps"

definition collection_elem :: "element list \<Rightarrow> element" where
  "collection_elem ds = Element ''collection'' [] None None ds"

definition serving_world :: "nat \<Rightarrow> element \<Rightarrow> world" where
  "serving_world code root = offline_world\<lparr>http_get := (\<lambda>_ _. Response code ''<collection/>'' (Some root))\<rparr>"


definition pmc123_url :: string where
  "pmc123_url = ''https://www.ncbi.nlm.nih.gov/research/bionlp/RESTful/pmcoa.cgi/BioC_xml/PMC123/unicode''"

section \<open>What one document contributes\<close>

text \<open>The texts that the loops of one document read: the captions of its figure
  passages, the texts of its abstract passages, and the text of its first title passage
  that has one. \<open>space_join\<close> appends texts to an abstract the way the abstract loop
  does. Then a collection of two documents, each with a title, an abstract and a
  figure.\<close>

definition space_join :: "string \<Rightarrow> string list \<Rightarrow> string" where
  "space_join a ts = foldl (\<lambda>a t. if a \<noteq> [] then a @ '' '' @ t else t) a ts"

definition doc_captions :: "element \<Rightarrow> string list" where
  "doc_captions doc = List.map_filter passage_text (figure_elements doc)"

definition doc_abstract_texts :: "element \<Rightarrow> string list" where
  "doc_abstract_texts doc = List.map_filter passage_text (abstract_elements doc)"

definition doc_passage_title :: "element \<Rightarrow> string option" where
  "doc_passage_title doc = first_text (title_elements doc)"

definition first_document :: element where
  "first_document = document_elem
     [passage_elem ''section_type'' ''TITLE'' ''First'',
      passage_elem ''section_type'' ''ABSTRACT'' ''A1'',
      passage_elem ''section_type'' ''FIG'' short_caption]"

definition second_document :: element where
  "second_document = document_elem
     [passage_elem ''section_type'' ''TITLE'' ''Second'',
      passage_elem ''section_type'' ''ABSTRACT'' ''A2'',
      passage_elem ''section_type'' ''FIG'' long_caption]"

definition two_documents :: element where
  "two_documents = collection_elem [first_document, second_document]"

section \<open>Counting annotation requests\<close>

text \<open>The number of requests for one caption in the trace of a state, the events that
  a run added, and the invariant of the parsing loops: every figure collected since
  \<open>s0\<close> whose caption has at least 20 characters was followed by a request for that
  caption. Then a document with a caption of exactly 20 characters and a longer one,
  and a world whose annotation service finds a gene in every text.\<close>

definition posts :: "string \<Rightarrow> state \<Rightarrow> nat" where
  "posts c s = count_list (trace s) (Bern_post c)"

definition new_events :: "state \<Rightarrow> state \<Rightarrow> event list" where
  "new_events s s' = drop (length (trace s)) (trace s')"

definition annotated_since :: "state \<Rightarrow> figure list \<Rightarrow> state \<Rightarrow> bool" where
  "annotated_since s0 figs s \<longleftrightarrow>
     prefix (trace s0) (trace s) \<and>
     (\<forall>f\<in>set figs. 20 \<le> length (caption f) \<longrightarrow> posts (caption f) s0 + 1 \<le> posts (caption f) s)"

definition caption20 :: string where
  "caption20 = ''Cells stained (DAPI)''"

definition figure_document :: element where
  "figure_document = document_elem
     [passage_elem ''section_type'' ''TITLE'' ''Title'',
      passage_elem ''section_type'' ''FIG'' caption20,
      passage_elem ''type'' ''fig'' long_caption]"

definition gene_annotation :: annotation where
  "gene_annotation = \<lparr>ann_mention = Some ''EGFR'', ann_obj = Some ''gene'',
     ann_span = Some (Some 20, Some 24), ann_id = Some [''NCBIGene:1956'']\<rparr>"

definition annotating_world :: world where
  "annotating_world = (serving_world 200 (collection_elem [figure_document]))
     \<lparr>post_bern := (\<lambda>_ _. Bern_json [gene_annotation])\<rparr>"

definition annotated_figures :: "figure list" where
  "annotated_figures =
     [\<lparr>caption = caption20, url = None, entities = []\<rparr>,
      \<lparr>caption = long_caption, url = None, entities = [entity_of gene_annotation]\<rparr>]"

definition annotated_paper :: paper where
  "annotated_paper = \<lparr>pmcid = ''PMC123'', title = ''Title'', abstract = [],
     figures = annotated_figures\<rparr>"

definition annotated_trace :: "event list" where
  "annotated_trace =
     [Http_get pmc123_url, File_write ''PMC123_response.xml'' (Text ''<collection/>''),
      Bern_post caption20, Bern_post long_caption, Bern_post long_caption,
      Db Connect, Db Create_publications, Db (Upsert_publication ''PMC123'')]"

section \<open>Runs that do not reach the upsert\<close>

text \<open>A state \<open>s'\<close> is a quiet continuation of \<open>s\<close> when it extends the trace of \<open>s\<close> by
  events none of which is the upsert of a publication, and has the same table of
  publications. Then a world in which that upsert raises.\<close>

fun is_upsert :: "event \<Rightarrow> bool" where
  "is_upsert (Db (Upsert_publication k)) = True"
| "is_upsert e = False"

definition quiet :: "state \<Rightarrow> state \<Rightarrow> bool" where
  "quiet s s' \<longleftrightarrow>
     prefix (trace s) (trace s') \<and> \<not> list_ex is_upsert (new_events s s') \<and>
     publications s' = publications s"

definition failing_store_world :: world where
  "failing_store_world =
     annotating_world\<lparr>db_raises := (\<lambda>_ op. op = Upsert_publication ''PMC123'')\<rparr>"

section \<open>Concrete batch files\<close>





section \<open>Basic facts about the state\<close>

lemma trace_emit [simp]: "trace (emit e s) = trace s @ [e]"
  by (simp add: emit_def)

lemma publications_emit [simp]: "publications (emit e s) = publications s"
  by (simp add: emit_def)

lemma pmid_to_pmcid_emit [simp]: "pmid_to_pmcid (emit e s) = pmid_to_pmcid s"
  by (simp add: emit_def)

lemma now_emit [simp]: "now (emit e s) = Suc (now s)"
  by (simp add: now_def)

section \<open>The annotator: skipping and retrying\<close>

text \<open>
  Claim C6. When entity extraction is disabled by configuration, or the text is shorter
  than 20 characters, \<open>fetch_entities_from_bern\<close> returns the empty list and leaves the
  state as it was: no event is recorded, so no request is sent.
\<close>

theorem annotate_skips_short_or_disabled:
  assumes "length cap < 20 \<or> \<not> enable_entity_extraction w"
  shows "fetch_entities_from_bern w cap max_retries s = ([], s)"
  using assms by (auto simp: fetch_entities_from_bern_def)

theorem annotate_skips_short_or_disabled_witness:
  "length short_caption < 20 \<and>
   fetch_entities_from_bern offline_world short_caption 3 empty_state = ([], empty_state) \<and>
   \<not> enable_entity_extraction (offline_world\<lparr>enable_entity_extraction := False\<rparr>) \<and>
   fetch_entities_from_bern (offline_world\<lparr>enable_entity_extraction := False\<rparr>)
     long_caption 3 empty_state = ([], empty_state)"
proof -
  have h: "length short_caption < 20 \<or> \<not> enable_entity_extraction offline_world"
    by (simp add: short_caption_def)
  have h': "length long_caption < 20 \<or>
            \<not> enable_entity_extraction (offline_world\<lparr>enable_entity_extraction := False\<rparr>)"
    by simp
  show ?thesis
    using annotate_skips_short_or_disabled [OF h, of 3 empty_state]
      annotate_skips_short_or_disabled [OF h', of 3 empty_state]
    by (simp add: short_caption_def)
qed

text \<open>The trace of the retry loop: \<open>k\<close> failed attempts, each followed by its pause,
  then possibly one request that succeeds.\<close>

lemma bern_loop_trace:
  "bern_loop w cap as s = (ents, s') \<Longrightarrow>
     \<exists>k ok. k \<le> length as \<and>
       trace s' = trace s @ concat (map (failed_attempt cap) (take k as)) @
                  (if ok then [Bern_post cap] else []) \<and>
       (ok \<longrightarrow> k < length as) \<and> (\<not> ok \<longrightarrow> ents = [] \<and> k = length as)"
proof (induction as arbitrary: s)
  case Nil
  then show ?case by auto
next
  case (Cons a as)
  show ?case
  proof (cases "post_bern w (now s) cap")
    case Bern_raises
    with Cons.prems
    have "bern_loop w cap as (emit (Sleep (2 * (a + 1))) (emit (Bern_post cap) s)) = (ents, s')"
      by simp
    from Cons.IH [OF this] obtain k ok where
      k: "k \<le> length as" and
      tr: "trace s' = trace (emit (Sleep (2 * (a + 1))) (emit (Bern_post cap) s)) @
            concat (map (failed_attempt cap) (take k as)) @
            (if ok then [Bern_post cap] else [])" and
      ok: "ok \<longrightarrow> k < length as" "\<not> ok \<longrightarrow> ents = [] \<and> k = length as"
      by blast
    have "Suc k \<le> length (a # as) \<and>
       trace s' = trace s @ concat (map (failed_attempt cap) (take (Suc k) (a # as))) @
                  (if ok then [Bern_post cap] else []) \<and>
       (ok \<longrightarrow> Suc k < length (a # as)) \<and>
       (\<not> ok \<longrightarrow> ents = [] \<and> Suc k = length (a # as))"
      using k tr ok by (simp add: failed_attempt_def)
    then show ?thesis by blast
  next
    case (Bern_json anns)
    with Cons.prems have "s' = emit (Bern_post cap) s" by auto
    then have "0 \<le> length (a # as) \<and>
       trace s' = trace s @ concat (map (failed_attempt cap) (take 0 (a # as))) @
                  (if True then [Bern_post cap] else []) \<and>
       (True \<longrightarrow> 0 < length (a # as)) \<and> (\<not> True \<longrightarrow> ents = [] \<and> 0 = length (a # as))"
      by simp
    then show ?thesis by blast
  qed
qed

lemma bern_loop_all_fail:
  "\<forall>t. post_bern w t cap = Bern_raises \<Longrightarrow>
     bern_loop w cap as s = ([], s\<lparr>trace := trace s @ concat (map (failed_attempt cap) as)\<rparr>)"
  by (induction as arbitrary: s) (auto simp: failed_attempt_def emit_def)

lemma sleeps_append: "sleeps (xs @ ys) = sleeps xs @ sleeps ys"
  by (induction xs rule: sleeps.induct) auto

lemma sleeps_failed_attempts:
  "sleeps (failed_attempts cap k) = map (\<lambda>a. 2 * (a + 1)) [0..<k]"
  by (induction k) (auto simp: failed_attempts_def failed_attempt_def sleeps_append)

lemma posts_failed_attempts: "length (filter is_bern_post (failed_attempts cap k)) = k"
  by (induction k) (auto simp: failed_attempts_def failed_attempt_def)

text \<open>
  Claim C5. For every text, a call of \<open>fetch_entities_from_bern\<close> (with the default of 3
  attempts) records \<open>k \<le> 3\<close> failed requests, the one of attempt number \<open>i\<close> followed by
  a pause of \<open>2 * i\<close>, and then at most one request that succeeds: at most 3 requests in
  all, with pauses that never decrease. When no request succeeds the result is the empty
  list; in particular, when the service fails every time, the function returns the empty
  list after exactly three requests and the pauses 2, 4 and 6. The function is total: it
  returns a list and never raises.
\<close>

theorem annotate_retries_then_empty:
  assumes "fetch_entities_from_bern w cap 3 s = (ents, s')"
  shows "(\<exists>k ok. k \<le> 3 \<and>
            trace s' = trace s @ failed_attempts cap k @ (if ok then [Bern_post cap] else []) \<and>
            (ok \<longrightarrow> k < 3) \<and> (\<not> ok \<longrightarrow> ents = [] \<and> (k = 0 \<or> k = 3))) \<and>
         length (filter is_bern_post (drop (length (trace s)) (trace s'))) \<le> 3 \<and>
         sorted (sleeps (drop (length (trace s)) (trace s'))) \<and>
         (enable_entity_extraction w \<and> 20 \<le> length cap \<and>
          (\<forall>t. post_bern w t cap = Bern_raises) \<longrightarrow>
            ents = [] \<and> trace s' = trace s @ failed_attempts cap 3)"
proof -
  have pat: "\<exists>k ok. k \<le> 3 \<and>
            trace s' = trace s @ failed_attempts cap k @ (if ok then [Bern_post cap] else []) \<and>
            (ok \<longrightarrow> k < 3) \<and> (\<not> ok \<longrightarrow> ents = [] \<and> (k = 0 \<or> k = 3))"
  proof (cases "enable_entity_extraction w \<and> 20 \<le> length cap")
    case True
    with assms have "bern_loop w cap [0..<3] s = (ents, s')"
      by (simp add: fetch_entities_from_bern_def)
    from bern_loop_trace [OF this] obtain k ok where
      k: "k \<le> length [0..<3::nat]" and
      tr: "trace s' = trace s @ concat (map (failed_attempt cap) (take k [0..<3])) @
             (if ok then [Bern_post cap] else [])" and
      ok: "ok \<longrightarrow> k < length [0..<3::nat]"
          "\<not> ok \<longrightarrow> ents = [] \<and> k = length [0..<3::nat]"
      by blast
    from k have k3: "k \<le> 3" by simp
    then have "take k [0..<3] = [0..<k]" by (simp add: take_upt)
    with tr k3 ok have "k \<le> 3 \<and>
            trace s' = trace s @ failed_attempts cap k @ (if ok then [Bern_post cap] else []) \<and>
            (ok \<longrightarrow> k < 3) \<and> (\<not> ok \<longrightarrow> ents = [] \<and> (k = 0 \<or> k = 3))"
      by (simp add: failed_attempts_def)
    then show ?thesis by blast
  next
    case False
    with assms have "ents = [] \<and> s' = s"
      by (auto simp: fetch_entities_from_bern_def split: if_splits)
    then have "(0::nat) \<le> 3 \<and>
            trace s' = trace s @ failed_attempts cap 0 @ (if False then [Bern_post cap] else []) \<and>
            (False \<longrightarrow> (0::nat) < 3) \<and>
            (\<not> False \<longrightarrow> ents = [] \<and> ((0::nat) = 0 \<or> (0::nat) = 3))"
      by (simp add: failed_attempts_def)
    then show ?thesis by blast
  qed
  then obtain k ok where k: "k \<le> 3" and
    tr: "trace s' = trace s @ failed_attempts cap k @ (if ok then [Bern_post cap] else [])" and
    ok: "ok \<longrightarrow> k < 3"
    by blast
  have posts: "length (filter is_bern_post (drop (length (trace s)) (trace s'))) \<le> 3"
    using k ok by (auto simp: tr posts_failed_attempts)
  have srt: "sorted (sleeps (drop (length (trace s)) (trace s')))"
    by (auto simp: tr sleeps_append sleeps_failed_attempts sorted_map
          intro!: sorted_wrt_mono_rel [of _ "(\<le>)"])
  have pers: "enable_entity_extraction w \<and> 20 \<le> length cap \<and>
       (\<forall>t. post_bern w t cap = Bern_raises) \<longrightarrow>
          ents = [] \<and> trace s' = trace s @ failed_attempts cap 3"
    using assms
    by (auto simp: fetch_entities_from_bern_def bern_loop_all_fail failed_attempts_def)
  from pat posts srt pers show ?thesis by blast
qed

theorem annotate_retries_then_empty_witness:
  "fetch_entities_from_bern offline_world long_caption 3 empty_state =
     ([], empty_state\<lparr>trace := failed_attempts long_caption 3\<rparr>) \<and>
   failed_attempts long_caption 3 =
     [Bern_post long_caption, Sleep 2, Bern_post long_caption, Sleep 4,
      Bern_post long_caption, Sleep 6] \<and>
   length (filter is_bern_post (failed_attempts long_caption 3)) \<le> 3 \<and>
   sorted (sleeps (failed_attempts long_caption 3))"
proof -
  have fa: "failed_attempts long_caption 3 =
     [Bern_post long_caption, Sleep 2, Bern_post long_caption, Sleep 4,
      Bern_post long_caption, Sleep 6]"
    by (simp add: failed_attempts_def failed_attempt_def upt_rec)
  have h: "fetch_entities_from_bern offline_world long_caption 3 empty_state =
     ([], empty_state\<lparr>trace := failed_attempts long_caption 3\<rparr>)"
    by (simp add: failed_attempts_def failed_attempt_def fetch_entities_from_bern_def
          offline_world_def long_caption_def empty_state_def emit_def now_def upt_rec)
  show ?thesis
    using annotate_retries_then_empty [OF h] h fa
    by (simp add: empty_state_def)
qed

section \<open>Storage: the upsert\<close>

lemma db_exec_ok [simp]:
  "\<forall>t op. \<not> db_raises w t op \<Longrightarrow> db_exec w op s = (True, emit (Db op) s)"
  by (simp add: db_exec_def)


lemma insert_or_replace_same_key:
  "filter (\<lambda>r. fst r = k) (insert_or_replace k v rows) = [(k, v)]"
  by (induction rows) (auto simp: insert_or_replace_def)

lemma insert_or_replace_other_keys:
  "filter (\<lambda>r. fst r \<noteq> k) (insert_or_replace k v rows) = filter (\<lambda>r. fst r \<noteq> k) rows"
  by (induction rows) (auto simp: insert_or_replace_def)

lemma insert_or_replace_twice:
  "insert_or_replace k v' (insert_or_replace k v rows) = insert_or_replace k v' rows"
  by (simp add: insert_or_replace_def)

lemma insert_or_replace_distinct:
  "distinct (map fst rows) \<Longrightarrow> distinct (map fst (insert_or_replace k v rows))"
  by (auto simp: insert_or_replace_def distinct_map_filter)

lemma insert_paper_publications:
  "\<not> db_raises w (now s) (Upsert_publication (pmcid d)) \<Longrightarrow>
     publications (insert_paper w d s) =
       insert_or_replace (pmcid d) (title d, abstract d, figures d) (publications s)"
  by (simp add: insert_paper_def db_exec_def)

text \<open>
  Claim C8. When a document is inserted and then a document with the same identifier is
  inserted again (both statements being executed by the database), the table holds
  exactly one row with that identifier, and the row is the second document's title,
  abstract and figures: nothing of the first document remains in it. The rows of other
  identifiers are as before, inserting the same document twice gives the same table as
  inserting it once, and keys stay unique.
\<close>

theorem upsert_single_latest_row:
  assumes "pmcid d2 = pmcid d1"
      and "\<not> db_raises w (now s) (Upsert_publication (pmcid d1))"
      and "\<not> db_raises w (now (insert_paper w d1 s)) (Upsert_publication (pmcid d2))"
  shows "filter (\<lambda>r. fst r = pmcid d1) (publications (insert_paper w d2 (insert_paper w d1 s))) =
           [(pmcid d1, title d2, abstract d2, figures d2)] \<and>
         filter (\<lambda>r. fst r \<noteq> pmcid d1) (publications (insert_paper w d2 (insert_paper w d1 s))) =
           filter (\<lambda>r. fst r \<noteq> pmcid d1) (publications s) \<and>
         (d2 = d1 \<longrightarrow>
            publications (insert_paper w d2 (insert_paper w d1 s)) =
            publications (insert_paper w d1 s)) \<and>
         (distinct (map fst (publications s)) \<longrightarrow>
            distinct (map fst (publications (insert_paper w d2 (insert_paper w d1 s)))))"
proof -
  let ?row1 = "(title d1, abstract d1, figures d1)" and ?row2 = "(title d2, abstract d2, figures d2)"
  have one: "publications (insert_paper w d1 s) =
               insert_or_replace (pmcid d1) ?row1 (publications s)"
    using assms(2) by (rule insert_paper_publications)
  have two: "publications (insert_paper w d2 (insert_paper w d1 s)) =
               insert_or_replace (pmcid d1) ?row2 (publications s)"
    using insert_paper_publications [OF assms(3)]
    by (simp add: one assms(1) insert_or_replace_twice)
  show ?thesis
    unfolding two one
    by (simp add: insert_or_replace_same_key insert_or_replace_other_keys
          insert_or_replace_distinct)
qed

theorem upsert_single_latest_row_witness:
  "pmcid paper_v2 = pmcid paper_v1 \<and>
   publications (insert_paper offline_world paper_v2 (insert_paper offline_world paper_v1 empty_state)) =
     [(''PMC123'', ''New title'', [], [\<lparr>caption = short_caption, url = None, entities = []\<rparr>])] \<and>
   filter (\<lambda>r. fst r = pmcid paper_v1)
     (publications (insert_paper offline_world paper_v2 (insert_paper offline_world paper_v1 empty_state))) =
     [(pmcid paper_v1, title paper_v2, abstract paper_v2, figures paper_v2)]"
proof -
  have h1: "pmcid paper_v2 = pmcid paper_v1"
    by (simp add: paper_v1_def paper_v2_def)
  have h2: "\<not> db_raises offline_world (now empty_state) (Upsert_publication (pmcid paper_v1))"
    by (simp add: offline_world_def)
  have h3: "\<not> db_raises offline_world (now (insert_paper offline_world paper_v1 empty_state))
              (Upsert_publication (pmcid paper_v2))"
    by (simp add: offline_world_def)
  have ev: "publications (insert_paper offline_world paper_v2 (insert_paper offline_world paper_v1 empty_state)) =
     [(''PMC123'', ''New title'', [], [\<lparr>caption = short_caption, url = None, entities = []\<rparr>])]"
    by (simp add: insert_paper_def db_exec_def offline_world_def empty_state_def emit_def
          insert_or_replace_def paper_v1_def paper_v2_def)
  show ?thesis
    using upsert_single_latest_row [OF h1 h2 h3] h1 ev by simp
qed

section \<open>Mapping import: which lines reach the table\<close>



















section \<open>Traces only grow\<close>

lemma prefix_emit [simp]: "prefix tr (trace s) \<Longrightarrow> prefix tr (trace (emit e s))"
  by (auto simp: prefix_def)

lemma bern_loop_extends: "prefix (trace s) (trace (snd (bern_loop w cap as s)))"
proof (induction as arbitrary: s)
  case Nil
  show ?case by simp
next
  case (Cons a as)
  have "prefix (trace s) (trace (emit (Sleep (2 * (a + 1))) (emit (Bern_post cap) s)))"
    by simp
  from prefix_order.trans [OF this Cons.IH] show ?case
    by (simp split: bern_response.splits)
qed

lemma bern_extends: "prefix (trace s) (trace (snd (fetch_entities_from_bern w cap n s)))"
  by (simp add: fetch_entities_from_bern_def bern_loop_extends)






lemma annotate_figures_extends: "prefix (trace s) (trace (snd (annotate_figures w fs s)))"
proof (induction fs arbitrary: s)
  case Nil
  show ?case by simp
next
  case (Cons f fs)
  show ?case
  proof (cases "length (caption f) > 20")
    case True
    from prefix_order.trans [OF bern_extends Cons.IH] show ?thesis
      using True by (simp add: split_def)
  next
    case False
    with Cons.IH show ?thesis by (simp add: split_def)
  qed
qed

lemma db_exec_extends [simp]: "prefix tr (trace s) \<Longrightarrow> prefix tr (trace (snd (db_exec w op s)))"
  by (simp add: db_exec_def)

lemma init_db_extends: "prefix tr (trace s) \<Longrightarrow> prefix tr (trace (snd (init_db w s)))"
  by (simp add: init_db_def db_exec_def split: bool.splits)

lemma insert_paper_extends: "prefix tr (trace s) \<Longrightarrow> prefix tr (trace (insert_paper w d s))"
  by (simp add: insert_paper_def db_exec_def split: bool.splits)

section \<open>Resolution of an identifier that has the prefix\<close>


lemma resolve_prefixed: "startswith (upper raw) ''PMC'' \<Longrightarrow> resolve_paper_id w raw s = (Inr raw, s)"
  by (simp add: resolve_paper_id_def ensure_pmc_any_case_def)






section \<open>The failures of the fetch\<close>





section \<open>Merging the documents of a response\<close>

lemma figure_loop_captions:
  "map caption (fst (figure_loop w es figs s)) = map caption figs @ List.map_filter passage_text es"
proof (induction es arbitrary: figs s)
  case Nil
  show ?case by (simp add: List.map_filter_simps)
next
  case (Cons e es)
  show ?case
    by (cases "passage_text e") (simp_all add: Cons.IH List.map_filter_simps split_def)
qed

lemma abstract_loop_join:
  "abstract_loop es a = space_join a (List.map_filter passage_text es)"
  by (induction es arbitrary: a) (auto simp: space_join_def List.map_filter_simps split: option.splits)

lemma space_join_append: "space_join a (xs @ ys) = space_join (space_join a xs) ys"
  by (simp add: space_join_def)

lemma passage_text_nonempty: "passage_text e = Some t \<Longrightarrow> t \<noteq> []"
  by (auto simp: passage_text_def split: option.splits if_splits)

lemma first_text_nonempty: "first_text es = Some t \<Longrightarrow> t \<noteq> []"
  by (induction es) (auto dest: passage_text_nonempty split: option.splits)

lemma document_step_figures:
  "map caption (pv_figures (fst (document_step w doc pv s))) =
     map caption (pv_figures pv) @ doc_captions doc"
  using figure_loop_captions [of w "figure_elements doc" "pv_figures pv" s]
  by (simp add: document_step_def Let_def split_def doc_captions_def)

lemma document_step_abstract:
  "pv_abstract (fst (document_step w doc pv s)) =
     space_join (pv_abstract pv) (doc_abstract_texts doc)"
  by (simp add: document_step_def Let_def split_def doc_abstract_texts_def abstract_loop_join)

lemma document_step_title_found:
  "doc_passage_title doc = Some t \<Longrightarrow> pv_title (fst (document_step w doc pv s)) = Some t"
  by (auto simp: document_step_def Let_def split_def doc_passage_title_def truthy_def
        dest: first_text_nonempty)

lemma document_step_title_kept:
  "doc_passage_title doc = None \<Longrightarrow> truthy (pv_title pv) \<Longrightarrow>
     pv_title (fst (document_step w doc pv s)) = pv_title pv"
  by (simp add: document_step_def Let_def split_def doc_passage_title_def)

lemma documents_loop_figures:
  "map caption (pv_figures (fst (documents_loop w docs pv s))) =
     map caption (pv_figures pv) @ concat (map doc_captions docs)"
proof (induction docs arbitrary: pv s)
  case Nil
  show ?case by simp
next
  case (Cons d docs)
  show ?case
    using Cons.IH [of "fst (document_step w d pv s)" "snd (document_step w d pv s)"]
    by (simp add: split_def document_step_figures)
qed

lemma documents_loop_abstract:
  "pv_abstract (fst (documents_loop w docs pv s)) =
     space_join (pv_abstract pv) (concat (map doc_abstract_texts docs))"
proof (induction docs arbitrary: pv s)
  case Nil
  show ?case by (simp add: space_join_def)
next
  case (Cons d docs)
  show ?case
    using Cons.IH [of "fst (document_step w d pv s)" "snd (document_step w d pv s)"]
    by (simp add: split_def document_step_abstract space_join_append)
qed

lemma documents_loop_title_kept:
  "\<forall>d\<in>set docs. doc_passage_title d = None \<Longrightarrow> truthy (pv_title pv) \<Longrightarrow>
     pv_title (fst (documents_loop w docs pv s)) = pv_title pv"
proof (induction docs arbitrary: pv s)
  case Nil
  show ?case by simp
next
  case (Cons d docs)
  have k: "pv_title (fst (document_step w d pv s)) = pv_title pv"
    using Cons.prems by (simp add: document_step_title_kept)
  show ?case
    using Cons.IH [of "fst (document_step w d pv s)" "snd (document_step w d pv s)"] Cons.prems k
    by (simp add: split_def)
qed

lemma documents_loop_append:
  "documents_loop w (xs @ ys) pv s =
     documents_loop w ys (fst (documents_loop w xs pv s)) (snd (documents_loop w xs pv s))"
  by (induction xs arbitrary: pv s) (simp_all add: split_def)

lemma documents_loop_title_last:
  assumes "doc_passage_title d = Some t" and "\<forall>d'\<in>set post. doc_passage_title d' = None"
  shows "pv_title (fst (documents_loop w (pre @ d # post) pv s)) = Some t"
proof -
  let ?a = "documents_loop w pre pv s"
  let ?b = "document_step w d (fst ?a) (snd ?a)"
  have t1: "pv_title (fst ?b) = Some t"
    using assms(1) by (rule document_step_title_found)
  have "t \<noteq> []"
    using assms(1) by (auto simp: doc_passage_title_def dest: first_text_nonempty)
  with t1 have "truthy (pv_title (fst ?b))" by (simp add: truthy_def)
  from documents_loop_title_kept [OF assms(2) this, of w "snd ?b"] t1
  show ?thesis
    by (simp add: documents_loop_append split_def)
qed

text \<open>
  Claim C3, as amended. For a response with several documents, the figures accumulate
  across all documents in encounter order; the abstract is the space-joined sequence of
  the abstract texts of all documents (a later document extends it); and the title is
  the title passage of the last document that has one (a later document replaces it).
\<close>

theorem documents_merged:
  "map caption (pv_figures (fst (extract_fields w root s))) =
     concat (map doc_captions (findall_desc root ''document'')) \<and>
   pv_abstract (fst (extract_fields w root s)) =
     space_join [] (concat (map doc_abstract_texts (findall_desc root ''document''))) \<and>
   (findall_desc root ''document'' = pre @ d # post \<and> doc_passage_title d = Some t \<and>
    (\<forall>d'\<in>set post. doc_passage_title d' = None) \<longrightarrow>
      pv_title (fst (extract_fields w root s)) = Some t)"
proof (intro conjI impI)
  let ?pv0 = "\<lparr>pv_title = Some [], pv_abstract = [], pv_figures = []\<rparr>"
  let ?l = "documents_loop w (findall_desc root ''document'') ?pv0 s"
  show "map caption (pv_figures (fst (extract_fields w root s))) =
     concat (map doc_captions (findall_desc root ''document''))"
    using documents_loop_figures [of w "findall_desc root ''document''" ?pv0 s]
    by (simp add: extract_fields_def split_def)
  show "pv_abstract (fst (extract_fields w root s)) =
     space_join [] (concat (map doc_abstract_texts (findall_desc root ''document'')))"
    using documents_loop_abstract [of w "findall_desc root ''document''" ?pv0 s]
    by (simp add: extract_fields_def split_def)
  assume a: "findall_desc root ''document'' = pre @ d # post \<and> doc_passage_title d = Some t \<and>
    (\<forall>d'\<in>set post. doc_passage_title d' = None)"
  then have tl: "pv_title (fst ?l) = Some t"
    using documents_loop_title_last [of d t post w pre ?pv0 s] by simp
  from a have "t \<noteq> []"
    by (auto simp: doc_passage_title_def dest: first_text_nonempty)
  with tl show "pv_title (fst (extract_fields w root s)) = Some t"
    by (simp add: extract_fields_def split_def truthy_def)
qed

lemmas xml_defs =
  collection_elem_def document_elem_def passage_elem_def infon_elem_def text_elem_def
  findall_desc_def findall_child_def find_child_def get_attr_def passage_text_def
  passages_with_def title_elements_def abstract_elements_def figure_elements_def
  article_title_def truthy_def figure_url_def

lemma serving_world_fields:
  "http_get (serving_world code root) t u = Response code ''<collection/>'' (Some root)"
  "write_ok (serving_world code root) t p"
  "enable_entity_extraction (serving_world code root)"
  "post_bern (serving_world code root) t c = Bern_raises"
  "\<not> db_raises (serving_world code root) t op"
  "ncbi_api_key (serving_world code root) = []"
  by (simp_all add: serving_world_def offline_world_def)

lemma documents_of_two_documents:
  "findall_desc two_documents ''document'' = [first_document, second_document]"
  by (simp add: two_documents_def first_document_def second_document_def xml_defs)

lemma title_of_second_document: "doc_passage_title second_document = Some ''Second''"
  by (simp add: doc_passage_title_def second_document_def xml_defs)

lemma captions_of_two_documents:
  "doc_captions first_document = [short_caption] \<and> doc_captions second_document = [long_caption]"
  by (simp add: doc_captions_def first_document_def second_document_def xml_defs
        List.map_filter_simps short_caption_def long_caption_def)

lemma abstracts_of_two_documents:
  "doc_abstract_texts first_document = [''A1''] \<and> doc_abstract_texts second_document = [''A2'']"
  by (simp add: doc_abstract_texts_def first_document_def second_document_def xml_defs
        List.map_filter_simps)

theorem documents_merged_witness:
  "findall_desc two_documents ''document'' = [first_document] @ second_document # [] \<and>
   doc_passage_title second_document = Some ''Second'' \<and>
   pv_title (fst (extract_fields offline_world two_documents empty_state)) = Some ''Second'' \<and>
   pv_abstract (fst (extract_fields offline_world two_documents empty_state)) = ''A1 A2'' \<and>
   map caption (pv_figures (fst (extract_fields offline_world two_documents empty_state))) =
     [short_caption, long_caption]"
proof -
  have d: "findall_desc two_documents ''document'' = [first_document] @ second_document # []"
    by (simp add: documents_of_two_documents)
  have p: "\<forall>d'\<in>set []. doc_passage_title d' = None"
    by simp
  from documents_merged [of offline_world two_documents empty_state "[first_document]"
         second_document "[]" "''Second''"] d title_of_second_document p
  show ?thesis
    by (simp add: documents_of_two_documents captions_of_two_documents
          abstracts_of_two_documents space_join_def)
qed

lemma extract_two_documents:
  "pv_title (fst (extract_fields w two_documents s)) = Some ''Second'' \<and>
   pv_abstract (fst (extract_fields w two_documents s)) = ''A1 A2''"
proof -
  let ?pv0 = "\<lparr>pv_title = Some [], pv_abstract = [], pv_figures = []\<rparr>"
  have "pv_title (fst (documents_loop w ([first_document] @ second_document # []) ?pv0 s)) =
          Some ''Second''"
    by (rule documents_loop_title_last) (simp_all add: title_of_second_document)
  moreover have "pv_abstract (fst (documents_loop w [first_document, second_document] ?pv0 s)) =
          ''A1 A2''"
    by (simp only: documents_loop_abstract)
       (simp add: abstracts_of_two_documents space_join_def)
  ultimately show ?thesis
    by (simp add: extract_fields_def split_def documents_of_two_documents truthy_def)
qed

text \<open>
  The claim as stated fails on the collection of two documents: the first document has
  the title \<open>First\<close> and the abstract \<open>A1\<close>, and the fetch returns the title
  \<open>Second\<close> and the abstract \<open>A1 A2\<close>.
\<close>

theorem documents_merged_counterexample:
  "map_option title (fst (fetch_bioc_paper (serving_world 200 two_documents) ''PMC123'' ''xml''
      ''unicode'' empty_state)) = Some ''Second'' \<and>
   map_option abstract (fst (fetch_bioc_paper (serving_world 200 two_documents) ''PMC123'' ''xml''
      ''unicode'' empty_state)) = Some ''A1 A2'' \<and>
   doc_passage_title first_document = Some ''First'' \<and>
   doc_abstract_texts first_document = [''A1'']"
proof -
  have en: "ensure_pmc ''PMC123'' = ''PMC123''"
    by (simp add: ensure_pmc_def startswith_def)
  have t1: "doc_passage_title first_document = Some ''First''"
    by (simp add: doc_passage_title_def first_document_def xml_defs)
  have "fst (fetch_bioc_paper (serving_world 200 two_documents) ''PMC123'' ''xml'' ''unicode''
               empty_state) =
        Some \<lparr>pmcid = ''PMC123'', title = ''Second'', abstract = ''A1 A2'',
               figures = pv_figures (fst (extract_fields (serving_world 200 two_documents)
                  two_documents
                  (emit (File_write ''PMC123_response.xml'' (Text ''<collection/>''))
                    (emit (Http_get (bioc_url (serving_world 200 two_documents) ''PMC123''
                       ''xml'' ''unicode'')) empty_state))))\<rparr>"
    by (simp add: fetch_bioc_paper_def en Let_def split_def extract_two_documents
          serving_world_fields)
  with t1 abstracts_of_two_documents show ?thesis by simp
qed

section \<open>Two rounds of annotation\<close>

lemma posts_mono: "prefix (trace s) (trace s') \<Longrightarrow> posts c s \<le> posts c s'"
  by (auto simp: posts_def prefix_def)

lemma posts_new_events:
  "prefix (trace s) (trace s') \<Longrightarrow> count_list (new_events s s') (Bern_post c) = posts c s' - posts c s"
  by (auto simp: posts_def new_events_def prefix_def)

lemma bern_loop_posts:
  "as \<noteq> [] \<Longrightarrow> posts cap s + 1 \<le> posts cap (snd (bern_loop w cap as s))"
proof (cases as)
  case Nil
  assume "as \<noteq> []"
  with Nil show ?thesis by simp
next
  case (Cons a rest)
  show ?thesis
  proof (cases "post_bern w (now s) cap")
    case Bern_raises
    have "posts cap s + 1 \<le> posts cap (emit (Sleep (2 * (a + 1))) (emit (Bern_post cap) s))"
      by (simp add: posts_def)
    also have "\<dots> \<le> posts cap (snd (bern_loop w cap rest (emit (Sleep (2 * (a + 1))) (emit (Bern_post cap) s))))"
      by (rule posts_mono) (rule bern_loop_extends)
    finally show ?thesis using Cons Bern_raises by simp
  next
    case (Bern_json anns)
    with Cons show ?thesis by (simp add: posts_def)
  qed
qed

lemma annotate_posts:
  "enable_entity_extraction w \<Longrightarrow> 20 \<le> length cap \<Longrightarrow>
     posts cap s + 1 \<le> posts cap (snd (fetch_entities_from_bern w cap 3 s))"
  using bern_loop_posts [of "[0..<3]" cap s w]
  by (simp add: fetch_entities_from_bern_def)

lemma annotated_since_later:
  "annotated_since s0 figs s \<Longrightarrow> prefix (trace s) (trace s') \<Longrightarrow> annotated_since s0 figs s'"
  unfolding annotated_since_def
  using posts_mono [of s s'] prefix_order.trans [of "trace s0" "trace s" "trace s'"]
  by (meson le_trans)

lemma figure_loop_annotated:
  assumes en: "enable_entity_extraction w"
  shows "annotated_since s0 figs s \<Longrightarrow>
     annotated_since s0 (fst (figure_loop w es figs s)) (snd (figure_loop w es figs s))"
proof (induction es arbitrary: figs s)
  case Nil
  then show ?case by simp
next
  case (Cons e es)
  show ?case
  proof (cases "passage_text e")
    case None
    with Cons show ?thesis by simp
  next
    case (Some cap)
    let ?r = "fetch_entities_from_bern w cap 3 s"
    let ?fig = "\<lparr>caption = cap, url = figure_url e, entities = fst ?r\<rparr>"
    have ext: "prefix (trace s) (trace (snd ?r))" by (rule bern_extends)
    have old: "annotated_since s0 figs (snd ?r)"
      using Cons.prems ext by (rule annotated_since_later)
    have new: "20 \<le> length cap \<longrightarrow> posts cap s0 + 1 \<le> posts cap (snd ?r)"
    proof
      assume "20 \<le> length cap"
      from annotate_posts [OF en this, of s]
      have "posts cap s + 1 \<le> posts cap (snd ?r)" .
      moreover have "posts cap s0 \<le> posts cap s"
        using Cons.prems by (simp add: annotated_since_def posts_mono)
      ultimately show "posts cap s0 + 1 \<le> posts cap (snd ?r)" by simp
    qed
    have "annotated_since s0 (figs @ [?fig]) (snd ?r)"
      using old new by (auto simp: annotated_since_def)
    from Cons.IH [OF this] show ?thesis
      using Some by (simp add: split_def)
  qed
qed

lemma document_step_annotated:
  assumes "enable_entity_extraction w" and "annotated_since s0 (pv_figures pv) s"
  shows "annotated_since s0 (pv_figures (fst (document_step w doc pv s)))
           (snd (document_step w doc pv s))"
  using figure_loop_annotated [OF assms, of "figure_elements doc"]
  by (simp add: document_step_def Let_def split_def)

lemma documents_loop_annotated:
  assumes en: "enable_entity_extraction w"
  shows "annotated_since s0 (pv_figures pv) s \<Longrightarrow>
     annotated_since s0 (pv_figures (fst (documents_loop w docs pv s)))
           (snd (documents_loop w docs pv s))"
proof (induction docs arbitrary: pv s)
  case Nil
  then show ?case by simp
next
  case (Cons d docs)
  from Cons.IH [OF document_step_annotated [OF en Cons.prems, of d]]
  show ?case by (simp add: split_def)
qed

lemma extract_fields_annotated:
  assumes en: "enable_entity_extraction w" and "prefix (trace s0) (trace s)"
  shows "annotated_since s0 (pv_figures (fst (extract_fields w root s)))
           (snd (extract_fields w root s))"
proof -
  have "annotated_since s0 (pv_figures \<lparr>pv_title = Some [], pv_abstract = [], pv_figures = []\<rparr>) s"
    using assms(2) by (simp add: annotated_since_def)
  from documents_loop_annotated [OF en this, of "findall_desc root ''document''"]
  show ?thesis by (simp add: extract_fields_def split_def)
qed

lemma fetch_annotated:
  assumes en: "enable_entity_extraction w"
      and f: "fetch_bioc_paper w pmc fmt enc s = (Some p, s')"
  shows "annotated_since s (figures p) s'"
proof -
  let ?u = "bioc_url w (ensure_pmc pmc) fmt enc"
  let ?s1 = "emit (Http_get ?u) s"
  have e: "annotated_since s (pv_figures (fst (extract_fields w r (emit x ?s1))))
             (snd (extract_fields w r (emit x ?s1)))" for r x
    by (rule extract_fields_annotated [OF en]) simp
  show ?thesis
  proof (cases "http_get w (now s) ?u")
    case Transport_error
    with f show ?thesis by (simp add: fetch_bioc_paper_def Let_def)
  next
    case (Response code tx body)
    with f e show ?thesis
      by (auto simp: fetch_bioc_paper_def Let_def split_def
            split: option.splits if_splits)
  qed
qed

lemma annotate_figures_captions:
  "map caption (fst (annotate_figures w fs s)) = map caption fs"
  by (induction fs arbitrary: s) (simp_all add: split_def)

lemma annotate_figures_short:
  "f' \<in> set (fst (annotate_figures w fs s)) \<Longrightarrow> length (caption f') \<le> 20 \<Longrightarrow> entities f' = []"
  by (induction fs arbitrary: s) (auto simp: split_def split: if_splits)

lemma annotate_figures_posts:
  assumes en: "enable_entity_extraction w"
  shows "f \<in> set fs \<Longrightarrow> 20 < length (caption f) \<Longrightarrow>
     posts (caption f) s + 1 \<le> posts (caption f) (snd (annotate_figures w fs s))"
proof (induction fs arbitrary: s)
  case Nil
  then show ?case by simp
next
  case (Cons g fs)
  show ?case
  proof (cases "20 < length (caption g)")
    case True
    let ?s1 = "snd (fetch_entities_from_bern w (caption g) 3 s)"
    have step: "snd (annotate_figures w (g # fs) s) = snd (annotate_figures w fs ?s1)"
      using True by (simp add: split_def)
    show ?thesis
    proof (cases "f = g")
      case True
      have "posts (caption f) s + 1 \<le> posts (caption f) ?s1"
        using annotate_posts [OF en, of "caption g" s] Cons.prems(2) True by simp
      also have "\<dots> \<le> posts (caption f) (snd (annotate_figures w fs ?s1))"
        by (rule posts_mono) (rule annotate_figures_extends)
      finally show ?thesis unfolding step by simp
    next
      case False
      with Cons.prems have "f \<in> set fs" by simp
      from Cons.IH [OF this Cons.prems(2), of ?s1]
      have "posts (caption f) ?s1 + 1 \<le> posts (caption f) (snd (annotate_figures w fs ?s1))" .
      moreover have "posts (caption f) s \<le> posts (caption f) ?s1"
        by (rule posts_mono) (rule bern_extends)
      ultimately show ?thesis unfolding step by simp
    qed
  next
    case False
    with Cons.prems have "f \<in> set fs" by auto
    from Cons.IH [OF this Cons.prems(2), of s] False show ?thesis
      by (simp add: split_def)
  qed
qed

lemma get_pmcid_extends: "prefix (trace s) (trace (snd (get_pmcid_from_database w pmid s)))"
  by (simp add: get_pmcid_from_database_def db_exec_def split: bool.splits option.splits)

lemma idconv_loop_extends: "prefix (trace s) (trace (snd (idconv_loop w pmid m as d s)))"
proof (induction as arbitrary: d s)
  case Nil
  show ?case by simp
next
  case (Cons a as)
  have "prefix (trace s) (trace (emit (Sleep d) (emit (Idconv_get pmid) s)))" by simp
  from prefix_order.trans [OF this Cons.IH] show ?case
    by (simp add: Let_def split: idconv_response.splits list.splits)
qed

lemma resolve_extends: "prefix (trace s) (trace (snd (resolve_paper_id w raw s)))"
proof -
  let ?g = "get_pmcid_from_database w raw s"
  have g: "prefix (trace s) (trace (snd ?g))" by (rule get_pmcid_extends)
  have c: "prefix (trace s) (trace (snd (convert_pmid_to_pmcid w raw (snd ?g))))"
    unfolding convert_pmid_to_pmcid_def
    by (rule prefix_order.trans [OF g idconv_loop_extends])
  show ?thesis
    using g c by (auto simp: resolve_paper_id_def split_def split: sum.splits)
qed

text \<open>
  Claim C9. With entity extraction enabled, in every run of \<open>process_paper_id\<close> that
  returns a document, each figure of the document whose caption has at least 20
  characters was annotated during the fetch (at least one request for its caption), a
  caption longer than 20 characters was annotated a second time by the pipeline (at
  least two requests), and a figure whose caption has exactly 20 characters ends with
  the empty entity list: what the request of the fetch returned for it is thrown away.
\<close>

theorem captions_annotated_twice:
  assumes en: "enable_entity_extraction w"
      and run: "process_paper_id w raw s = (Inr p, s')"
      and f: "f \<in> set (figures p)"
  shows "(20 \<le> length (caption f) \<longrightarrow> 1 \<le> count_list (new_events s s') (Bern_post (caption f))) \<and>
         (20 < length (caption f) \<longrightarrow> 2 \<le> count_list (new_events s s') (Bern_post (caption f))) \<and>
         (length (caption f) = 20 \<longrightarrow> entities f = [])"
proof -
  obtain pmc s1 where r: "resolve_paper_id w raw s = (Inr pmc, s1)"
    using run by (auto simp: process_paper_id_def split: prod.splits sum.splits)
  obtain p0 s2 where ft: "fetch_bioc_paper w pmc ''xml'' ''unicode'' s1 = (Some p0, s2)"
    using run r by (auto simp: process_paper_id_def split: prod.splits option.splits)
  let ?a = "annotate_figures w (figures p0) s2"
  have ne: "figures p0 \<noteq> []"
    using run r ft f en
    by (auto simp: process_paper_id_def annotate_paper_def split: prod.splits sum.splits if_splits)
  define s4 where "s4 = snd (init_db w (snd ?a))"
  have p: "p = p0\<lparr>figures := fst ?a\<rparr>" and s': "s' = insert_paper w p s4"
    using run r ft en ne
    by (auto simp: process_paper_id_def annotate_paper_def split_def s4_def split: sum.splits)
  have e01: "prefix (trace s) (trace s1)"
    using resolve_extends [of s w raw] r by simp
  have e12: "annotated_since s1 (figures p0) s2"
    using en ft by (rule fetch_annotated)
  have e23: "prefix (trace s2) (trace (snd ?a))"
    by (rule annotate_figures_extends)
  have e34: "prefix (trace (snd ?a)) (trace s')"
    using init_db_extends [of "trace (snd ?a)" "snd ?a" w]
    by (simp add: s' s4_def insert_paper_extends)
  have e12': "prefix (trace s1) (trace s2)"
    using e12 by (simp add: annotated_since_def)
  have e0: "prefix (trace s) (trace s')"
    using e01 e12' e23 e34 by (meson prefix_order.trans)
  from f p have "caption f \<in> set (map caption (fst ?a))" by auto
  then have "caption f \<in> set (map caption (figures p0))"
    by (simp only: annotate_figures_captions)
  then obtain f0 where f0: "f0 \<in> set (figures p0)" "caption f0 = caption f" by auto
  let ?c = "caption f"
  have first: "20 \<le> length ?c \<Longrightarrow> posts ?c s1 + 1 \<le> posts ?c s2"
    using e12 f0 by (auto simp: annotated_since_def)
  have second: "20 < length ?c \<Longrightarrow> posts ?c s2 + 1 \<le> posts ?c (snd ?a)"
    using annotate_figures_posts [OF en f0(1), of s2] f0(2) by simp
  have m01: "posts ?c s \<le> posts ?c s1" using e01 by (rule posts_mono)
  have m23: "posts ?c s2 \<le> posts ?c (snd ?a)" using e23 by (rule posts_mono)
  have m34: "posts ?c (snd ?a) \<le> posts ?c s'" using e34 by (rule posts_mono)
  have cnt: "count_list (new_events s s') (Bern_post ?c) = posts ?c s' - posts ?c s"
    using e0 by (rule posts_new_events)
  have short: "length ?c = 20 \<Longrightarrow> entities f = []"
    using annotate_figures_short [of f w "figures p0" s2] f p by simp
  show ?thesis
    using first second m01 m23 m34 short by (auto simp: cnt)
qed

lemma annotating_world_fields:
  "http_get annotating_world t u = Response 200 ''<collection/>'' (Some (collection_elem [figure_document]))"
  "write_ok annotating_world t p"
  "enable_entity_extraction annotating_world"
  "post_bern annotating_world t c = Bern_json [gene_annotation]"
  "\<not> db_raises annotating_world t op"
  "ncbi_api_key annotating_world = []"
  by (simp_all add: annotating_world_def serving_world_def offline_world_def)

lemma length_captions: "length caption20 = 20" "length long_caption = 24"
  by (simp_all add: caption20_def long_caption_def)

lemma figure_document_elements:
  "title_elements figure_document = [passage_elem ''section_type'' ''TITLE'' ''Title'']"
  "abstract_elements figure_document = []"
  "figure_elements figure_document =
     [passage_elem ''section_type'' ''FIG'' caption20, passage_elem ''type'' ''fig'' long_caption]"
  "findall_child figure_document ''infon'' = []"
  "findall_desc (collection_elem [figure_document]) ''document'' = [figure_document]"
  by (simp_all add: figure_document_def xml_defs)

lemma passage_text_passage_elem: "passage_text (passage_elem k v c) = (if c = [] then None else Some c)"
  by (simp add: xml_defs)

lemma figure_url_passage_elem: "figure_url (passage_elem ''section_type'' v c) = None"
  "figure_url (passage_elem ''type'' v c) = None"
  by (simp_all add: xml_defs)

lemma annotating_run:
  "process_paper_id annotating_world ''PMC123'' empty_state =
     (Inr annotated_paper,
      \<lparr>trace = annotated_trace,
       publications = [(''PMC123'', ''Title'', [], annotated_figures)],
       pmid_to_pmcid = None\<rparr>)"
proof -
  have r: "resolve_paper_id annotating_world ''PMC123'' empty_state = (Inr ''PMC123'', empty_state)"
    by (rule resolve_prefixed) (simp add: startswith_def upper_def upper_char_def)
  have en: "ensure_pmc ''PMC123'' = ''PMC123''"
    by (simp add: ensure_pmc_def startswith_def)
  have u: "bioc_url annotating_world ''PMC123'' ''xml'' ''unicode'' = pmc123_url"
    by (simp add: bioc_url_def annotating_world_fields pmc123_url_def)
  have c20: "caption20 \<noteq> []" "long_caption \<noteq> []"
    by (simp_all add: caption20_def long_caption_def)
  have fetch: "fetch_bioc_paper annotating_world ''PMC123'' ''xml'' ''unicode'' empty_state =
     (Some \<lparr>pmcid = ''PMC123'', title = ''Title'', abstract = [],
        figures = [\<lparr>caption = caption20, url = None, entities = [entity_of gene_annotation]\<rparr>,
                   \<lparr>caption = long_caption, url = None, entities = [entity_of gene_annotation]\<rparr>]\<rparr>,
      \<lparr>trace = [Http_get pmc123_url, File_write ''PMC123_response.xml'' (Text ''<collection/>''),
                 Bern_post caption20, Bern_post long_caption],
       publications = [], pmid_to_pmcid = None\<rparr>)"
    by (simp add: fetch_bioc_paper_def en u annotating_world_fields Let_def extract_fields_def
          figure_document_elements document_step_def passage_text_passage_elem
          figure_url_passage_elem fetch_entities_from_bern_def length_captions c20 upt_rec
          truthy_def emit_def now_def empty_state_def)
  show ?thesis
    by (simp add: process_paper_id_def annotate_paper_def r fetch annotating_world_fields
          length_captions fetch_entities_from_bern_def upt_rec init_db_def db_exec_def insert_paper_def
          insert_or_replace_def emit_def now_def annotated_paper_def annotated_figures_def
          annotated_trace_def)
qed

theorem captions_annotated_twice_witness:
  "enable_entity_extraction annotating_world \<and>
   fst (process_paper_id annotating_world ''PMC123'' empty_state) = Inr annotated_paper \<and>
   figures annotated_paper =
     [\<lparr>caption = caption20, url = None, entities = []\<rparr>,
      \<lparr>caption = long_caption, url = None, entities = [entity_of gene_annotation]\<rparr>] \<and>
   length caption20 = 20 \<and>
   1 \<le> count_list (new_events empty_state (snd (process_paper_id annotating_world ''PMC123'' empty_state)))
         (Bern_post caption20) \<and>
   20 < length long_caption \<and>
   2 \<le> count_list (new_events empty_state (snd (process_paper_id annotating_world ''PMC123'' empty_state)))
         (Bern_post long_caption)"
proof -
  let ?s' = "\<lparr>trace = annotated_trace,
       publications = [(''PMC123'', ''Title'', [], annotated_figures)],
       pmid_to_pmcid = None\<rparr>"
  have en: "enable_entity_extraction annotating_world"
    by (rule annotating_world_fields)
  have f1: "\<lparr>caption = caption20, url = None, entities = []\<rparr> \<in> set (figures annotated_paper)"
    by (simp add: annotated_paper_def annotated_figures_def)
  have f2: "\<lparr>caption = long_caption, url = None, entities = [entity_of gene_annotation]\<rparr>
              \<in> set (figures annotated_paper)"
    by (simp add: annotated_paper_def annotated_figures_def)
  from captions_annotated_twice [OF en annotating_run f1]
       captions_annotated_twice [OF en annotating_run f2]
  show ?thesis
    by (simp add: annotating_run length_captions en)
       (simp add: annotated_paper_def annotated_figures_def)
qed

section \<open>A storage failure is not surfaced\<close>

lemma quiet_refl [simp]: "quiet s s"
  by (simp add: quiet_def new_events_def)

lemma quiet_emit [simp]: "quiet s0 s \<Longrightarrow> \<not> is_upsert e \<Longrightarrow> quiet s0 (emit e s)"
  by (auto simp: quiet_def new_events_def prefix_def)

lemma quiet_bern_loop: "quiet s0 s \<Longrightarrow> quiet s0 (snd (bern_loop w cap as s))"
  by (induction as arbitrary: s) (simp_all split: bern_response.splits)

lemma quiet_bern: "quiet s0 s \<Longrightarrow> quiet s0 (snd (fetch_entities_from_bern w cap n s))"
  by (simp add: fetch_entities_from_bern_def quiet_bern_loop)

lemma quiet_figure_loop: "quiet s0 s \<Longrightarrow> quiet s0 (snd (figure_loop w es figs s))"
proof (induction es arbitrary: figs s)
  case Nil
  then show ?case by simp
next
  case (Cons e es)
  show ?case
  proof (cases "passage_text e")
    case None
    with Cons show ?thesis by simp
  next
    case (Some cap)
    from Cons.IH [OF quiet_bern [OF Cons.prems, of w cap 3]] show ?thesis
      using Some by (simp add: split_def)
  qed
qed

lemma quiet_document_step: "quiet s0 s \<Longrightarrow> quiet s0 (snd (document_step w doc pv s))"
  by (simp add: document_step_def Let_def split_def quiet_figure_loop)

lemma quiet_documents_loop: "quiet s0 s \<Longrightarrow> quiet s0 (snd (documents_loop w docs pv s))"
proof (induction docs arbitrary: pv s)
  case Nil
  then show ?case by simp
next
  case (Cons d docs)
  from Cons.IH [OF quiet_document_step [OF Cons.prems, of w d pv]] show ?case
    by (simp add: split_def)
qed

lemma quiet_extract_fields: "quiet s0 s \<Longrightarrow> quiet s0 (snd (extract_fields w root s))"
  by (simp add: extract_fields_def split_def quiet_documents_loop)

lemma quiet_fetch: "quiet s0 s \<Longrightarrow> quiet s0 (snd (fetch_bioc_paper w pmc fmt enc s))"
proof (cases "http_get w (now s) (bioc_url w (ensure_pmc pmc) fmt enc)")
  case Transport_error
  assume "quiet s0 s"
  with Transport_error show ?thesis by (simp add: fetch_bioc_paper_def Let_def)
next
  case (Response code tx body)
  assume "quiet s0 s"
  with Response show ?thesis
    by (simp add: fetch_bioc_paper_def Let_def split_def quiet_extract_fields
          split: option.splits)
qed

lemma quiet_get_pmcid: "quiet s0 s \<Longrightarrow> quiet s0 (snd (get_pmcid_from_database w pmid s))"
  by (simp add: get_pmcid_from_database_def db_exec_def split: bool.splits option.splits)

lemma quiet_idconv_loop: "quiet s0 s \<Longrightarrow> quiet s0 (snd (idconv_loop w pmid m as d s))"
  by (induction as arbitrary: d s)
     (simp_all add: Let_def split: idconv_response.splits list.splits)

lemma quiet_resolve: "quiet s0 s \<Longrightarrow> quiet s0 (snd (resolve_paper_id w raw s))"
proof -
  assume q: "quiet s0 s"
  let ?g = "get_pmcid_from_database w raw s"
  have g: "quiet s0 (snd ?g)" using q by (rule quiet_get_pmcid)
  have c: "quiet s0 (snd (convert_pmid_to_pmcid w raw (snd ?g)))"
    unfolding convert_pmid_to_pmcid_def using g by (rule quiet_idconv_loop)
  show ?thesis
    using q g c by (auto simp: resolve_paper_id_def split_def split: sum.splits)
qed

lemma quiet_annotate_figures: "quiet s0 s \<Longrightarrow> quiet s0 (snd (annotate_figures w fs s))"
proof (induction fs arbitrary: s)
  case Nil
  then show ?case by simp
next
  case (Cons f fs)
  show ?case
  proof (cases "length (caption f) > 20")
    case True
    from Cons.IH [OF quiet_bern [OF Cons.prems, of w "caption f" 3]] True show ?thesis
      by (simp add: split_def)
  next
    case False
    with Cons.IH [OF Cons.prems] show ?thesis by (simp add: split_def)
  qed
qed

lemma quiet_init_db: "quiet s0 s \<Longrightarrow> quiet s0 (snd (init_db w s))"
  by (simp add: init_db_def db_exec_def split: bool.splits)

lemma quiet_select_publication:
  "quiet s0 s \<Longrightarrow> quiet s0 (snd (select_publication w key s))"
  by (simp add: select_publication_def db_exec_def split: bool.splits)

text \<open>A run of the pipeline ends in an exception, quietly, or it returns the document
  after \<open>insert_paper\<close> has run on a quiet continuation.\<close>

lemma process_paper_id_cases:
  assumes q: "quiet s0 s"
  shows "(\<exists>e. fst (process_paper_id w raw s) = Inl e \<and> quiet s0 (snd (process_paper_id w raw s))) \<or>
         (\<exists>p s4. quiet s0 s4 \<and> process_paper_id w raw s = (Inr p, insert_paper w p s4))"
proof -
  obtain r1 s1 where r: "resolve_paper_id w raw s = (r1, s1)"
    by (cases "resolve_paper_id w raw s")
  have q1: "quiet s0 s1" using quiet_resolve [OF q, of w raw] r by simp
  show ?thesis
  proof (cases r1)
    case (Inl e)
    with r q1 show ?thesis by (simp add: process_paper_id_def)
  next
    case (Inr pmc)
    obtain r2 s2 where f: "fetch_bioc_paper w pmc ''xml'' ''unicode'' s1 = (r2, s2)"
      by (cases "fetch_bioc_paper w pmc ''xml'' ''unicode'' s1")
    have q2: "quiet s0 s2" using quiet_fetch [OF q1, of w pmc "''xml''" "''unicode''"] f by simp
    show ?thesis
    proof (cases r2)
      case None
      with r Inr f q2 show ?thesis by (simp add: process_paper_id_def)
    next
      case (Some p0)
      define a where "a = annotate_paper w p0 s2"
      have q3: "quiet s0 (snd a)"
        using q2 quiet_annotate_figures [OF q2, of w "figures p0"]
        by (simp add: a_def annotate_paper_def split_def)
      obtain r4 s4 where i: "init_db w (snd a) = (r4, s4)"
        by (cases "init_db w (snd a)")
      have q4: "quiet s0 s4" using quiet_init_db [OF q3, of w] i by simp
      have run: "process_paper_id w raw s =
          (case r4 of Inl e \<Rightarrow> (Inl e, s4) | Inr _ \<Rightarrow> (Inr (fst a), insert_paper w (fst a) s4))"
        using r Inr f Some i
        by (cases r4) (simp_all add: process_paper_id_def a_def [symmetric] split_def)
      show ?thesis
      proof (cases r4)
        case (Inl e)
        with run q4 show ?thesis by simp
      next
        case (Inr u)
        with run q4 show ?thesis by auto
      qed
    qed
  qed
qed

lemma upsert_not_in_quiet:
  "quiet s s' \<Longrightarrow> Db (Upsert_publication k) \<notin> set (new_events s s')"
  by (auto simp: quiet_def list_ex_iff)

lemma new_events_insert_paper:
  "quiet s s4 \<Longrightarrow>
     new_events s (insert_paper w p s4) = new_events s s4 @ [Db (Upsert_publication (pmcid p))]"
  by (auto simp: quiet_def new_events_def prefix_def insert_paper_def db_exec_def
        split: bool.splits)

lemma insert_paper_raises:
  "db_raises w (now s) (Upsert_publication (pmcid d)) \<Longrightarrow>
     publications (insert_paper w d s) = publications s"
  by (simp add: insert_paper_def db_exec_def)

lemma process_paper_id_upsert_raised:
  assumes raises: "\<forall>t. db_raises w t (Upsert_publication k)"
      and q: "quiet s0 s"
      and ev: "Db (Upsert_publication k) \<in> set (new_events s0 (snd (process_paper_id w raw s)))"
  shows "(\<exists>p. fst (process_paper_id w raw s) = Inr p \<and> pmcid p = k) \<and>
         publications (snd (process_paper_id w raw s)) = publications s0"
proof -
  from process_paper_id_cases [OF q, of w raw]
  show ?thesis
  proof
    assume "\<exists>e. fst (process_paper_id w raw s) = Inl e \<and> quiet s0 (snd (process_paper_id w raw s))"
    with ev upsert_not_in_quiet show ?thesis by blast
  next
    assume "\<exists>p s4. quiet s0 s4 \<and> process_paper_id w raw s = (Inr p, insert_paper w p s4)"
    then obtain p s4 where q4: "quiet s0 s4"
      and run: "process_paper_id w raw s = (Inr p, insert_paper w p s4)"
      by blast
    from ev run new_events_insert_paper [OF q4, of w p] upsert_not_in_quiet [OF q4, of k]
    have k: "pmcid p = k" by auto
    have "publications (insert_paper w p s4) = publications s4"
      using raises k by (simp add: insert_paper_raises)
    with q4 run k show ?thesis by (simp add: quiet_def)
  qed
qed

lemma batch_loop_single:
  "batch_loop w [(pid, raw)] (sc, fc) s =
     (case fst (process_paper_id w raw s) of
        Inr r \<Rightarrow> (sc + 1, fc) | Inl e \<Rightarrow> (sc, fc + 1),
      snd (process_paper_id w raw s))"
  by (cases "process_paper_id w raw s") (auto split: sum.splits)

lemma run_extraction_upsert_raised:
  assumes raises: "\<forall>t. db_raises w t (Upsert_publication k)"
      and q: "quiet s0 s"
      and ev: "Db (Upsert_publication k) \<in> set (new_events s0 (snd (run_extraction w pid s)))"
  shows "resp_status (fst (run_extraction w pid s)) = ''success'' \<and>
         resp_error (fst (run_extraction w pid s)) = None \<and>
         publications (snd (run_extraction w pid s)) = publications s0"
proof -
  have sn: "snd (run_extraction w pid s) = snd (process_paper_id w pid s)"
    by (cases "process_paper_id w pid s") (auto simp: run_extraction_def split: sum.splits)
  from process_paper_id_upsert_raised [OF raises q, of pid] ev
  obtain p where "fst (process_paper_id w pid s) = Inr p"
    and pb: "publications (snd (process_paper_id w pid s)) = publications s0"
    by (auto simp: sn)
  then show ?thesis
    by (cases "process_paper_id w pid s") (simp add: run_extraction_def)
qed

lemma extract_one_upsert_raised:
  assumes raises: "\<forall>t. db_raises w t (Upsert_publication k)"
      and ev: "Db (Upsert_publication k) \<in> set (new_events s (snd (extract_one w pid s)))"
  shows "resp_status (fst (extract_one w pid s)) = ''success'' \<and>
         resp_error (fst (extract_one w pid s)) = None \<and>
         publications (snd (extract_one w pid s)) = publications s"
proof (cases "startswith (upper pid) ''PMC''")
  case True
  obtain r s1 where sel: "select_publication w (upper pid) s = (r, s1)"
    by (cases "select_publication w (upper pid) s")
  have q1: "quiet s s1"
    using quiet_select_publication [OF quiet_refl [of s], of w "upper pid"] sel by simp
  show ?thesis
  proof (cases "r = Some False")
    case True
    with \<open>startswith (upper pid) ''PMC''\<close> sel
    have "extract_one w pid s = run_extraction w pid s1"
      by (simp add: extract_one_def)
    with run_extraction_upsert_raised [OF raises q1, of pid] ev show ?thesis by simp
  next
    case False
    with \<open>startswith (upper pid) ''PMC''\<close> sel have "snd (extract_one w pid s) = s1"
      by (cases r) (auto simp: extract_one_def split: bool.splits)
    with ev upsert_not_in_quiet [OF q1, of k] show ?thesis by simp
  qed
next
  case False
  obtain p s1 where g: "get_pmcid_from_database w pid s = (p, s1)"
    by (cases "get_pmcid_from_database w pid s")
  have q1: "quiet s s1"
    using quiet_get_pmcid [OF quiet_refl [of s], of w pid] g by simp
  show ?thesis
  proof (cases "truthy p")
    case nt: False
    with \<open>\<not> startswith (upper pid) ''PMC''\<close> g
    have "extract_one w pid s = run_extraction w pid s1"
      by (simp add: extract_one_def)
    with run_extraction_upsert_raised [OF raises q1, of pid] ev show ?thesis by simp
  next
    case tr: True
    obtain r s2 where sel: "select_publication w (upper (the p)) s1 = (r, s2)"
      by (cases "select_publication w (upper (the p)) s1")
    have q2: "quiet s s2"
      using quiet_select_publication [OF q1, of w "upper (the p)"] sel by simp
    show ?thesis
    proof (cases "r = Some False")
      case True
      with \<open>\<not> startswith (upper pid) ''PMC''\<close> g tr sel
      have "extract_one w pid s = run_extraction w pid s2"
        by (simp add: extract_one_def)
      with run_extraction_upsert_raised [OF raises q2, of pid] ev show ?thesis by simp
    next
      case False
      with \<open>\<not> startswith (upper pid) ''PMC''\<close> g tr sel have "snd (extract_one w pid s) = s2"
        by (cases r) (auto simp: extract_one_def split: bool.splits)
      with ev upsert_not_in_quiet [OF q2, of k] show ?thesis by simp
    qed
  qed
qed

text \<open>
  Claim C10. Suppose the upsert of the publication \<open>k\<close> raises whenever it is executed.
  Then \<open>insert_paper\<close> returns with the table unchanged; every run of
  \<open>process_paper_id\<close> that executes this upsert still returns the document \<open>k\<close>, with
  nothing persisted; the loop of the batch watcher counts such a run as a success and
  not as a failure; and the request layer reports it with the status \<open>success\<close> and no
  error.
\<close>

theorem storage_failure_not_surfaced:
  assumes raises: "\<forall>t. db_raises w t (Upsert_publication k)"
  shows "(pmcid d = k \<longrightarrow> publications (insert_paper w d s) = publications s) \<and>
         (Db (Upsert_publication k) \<in> set (new_events s (snd (process_paper_id w raw s))) \<longrightarrow>
            (\<exists>p. fst (process_paper_id w raw s) = Inr p \<and> pmcid p = k) \<and>
            publications (snd (process_paper_id w raw s)) = publications s) \<and>
         (Db (Upsert_publication k) \<in>
            set (new_events s (snd (batch_loop w [(pid, raw)] (sc, fc) s))) \<longrightarrow>
            fst (batch_loop w [(pid, raw)] (sc, fc) s) = (sc + 1, fc) \<and>
            publications (snd (batch_loop w [(pid, raw)] (sc, fc) s)) = publications s) \<and>
         (Db (Upsert_publication k) \<in> set (new_events s (snd (extract_one w raw s))) \<longrightarrow>
            resp_status (fst (extract_one w raw s)) = ''success'' \<and>
            resp_error (fst (extract_one w raw s)) = None \<and>
            publications (snd (extract_one w raw s)) = publications s)"
proof (intro conjI impI)
  assume "pmcid d = k"
  with raises show "publications (insert_paper w d s) = publications s"
    by (simp add: insert_paper_raises)
next
  assume ev: "Db (Upsert_publication k) \<in> set (new_events s (snd (process_paper_id w raw s)))"
  from process_paper_id_upsert_raised [OF raises quiet_refl ev]
  show "\<exists>p. fst (process_paper_id w raw s) = Inr p \<and> pmcid p = k"
    and "publications (snd (process_paper_id w raw s)) = publications s"
    by simp_all
next
  assume "Db (Upsert_publication k) \<in>
            set (new_events s (snd (batch_loop w [(pid, raw)] (sc, fc) s)))"
  then have ev: "Db (Upsert_publication k) \<in> set (new_events s (snd (process_paper_id w raw s)))"
    by (simp add: batch_loop_single del: batch_loop.simps)
  from process_paper_id_upsert_raised [OF raises quiet_refl ev]
  show "fst (batch_loop w [(pid, raw)] (sc, fc) s) = (sc + 1, fc)"
    and "publications (snd (batch_loop w [(pid, raw)] (sc, fc) s)) = publications s"
    by (auto simp: batch_loop_single simp del: batch_loop.simps)
next
  assume ev: "Db (Upsert_publication k) \<in> set (new_events s (snd (extract_one w raw s)))"
  from extract_one_upsert_raised [OF raises ev]
  show "resp_status (fst (extract_one w raw s)) = ''success''"
    and "resp_error (fst (extract_one w raw s)) = None"
    and "publications (snd (extract_one w raw s)) = publications s"
    by simp_all
qed

lemma failing_store_world_fields:
  "http_get failing_store_world t u = Response 200 ''<collection/>'' (Some (collection_elem [figure_document]))"
  "write_ok failing_store_world t p"
  "enable_entity_extraction failing_store_world"
  "post_bern failing_store_world t c = Bern_json [gene_annotation]"
  "db_raises failing_store_world t op = (op = Upsert_publication ''PMC123'')"
  "ncbi_api_key failing_store_world = []"
  by (simp_all add: failing_store_world_def annotating_world_def serving_world_def
        offline_world_def)

lemma failing_run:
  "process_paper_id failing_store_world ''PMC123'' s =
     (Inr annotated_paper, s\<lparr>trace := trace s @ annotated_trace\<rparr>)"
proof -
  have r: "resolve_paper_id failing_store_world ''PMC123'' s = (Inr ''PMC123'', s)"
    by (rule resolve_prefixed) (simp add: startswith_def upper_def upper_char_def)
  have en: "ensure_pmc ''PMC123'' = ''PMC123''"
    by (simp add: ensure_pmc_def startswith_def)
  have u: "bioc_url failing_store_world ''PMC123'' ''xml'' ''unicode'' = pmc123_url"
    by (simp add: bioc_url_def failing_store_world_fields pmc123_url_def)
  have c20: "caption20 \<noteq> []" "long_caption \<noteq> []"
    by (simp_all add: caption20_def long_caption_def)
  have fetch: "fetch_bioc_paper failing_store_world ''PMC123'' ''xml'' ''unicode'' s =
     (Some \<lparr>pmcid = ''PMC123'', title = ''Title'', abstract = [],
        figures = [\<lparr>caption = caption20, url = None, entities = [entity_of gene_annotation]\<rparr>,
                   \<lparr>caption = long_caption, url = None, entities = [entity_of gene_annotation]\<rparr>]\<rparr>,
      s\<lparr>trace := trace s @ [Http_get pmc123_url,
                 File_write ''PMC123_response.xml'' (Text ''<collection/>''),
                 Bern_post caption20, Bern_post long_caption]\<rparr>)"
    by (simp add: fetch_bioc_paper_def en u failing_store_world_fields Let_def extract_fields_def
          figure_document_elements document_step_def passage_text_passage_elem
          figure_url_passage_elem fetch_entities_from_bern_def length_captions c20 upt_rec
          truthy_def emit_def now_def)
  show ?thesis
    by (simp add: process_paper_id_def annotate_paper_def r fetch failing_store_world_fields
          length_captions fetch_entities_from_bern_def upt_rec init_db_def db_exec_def
          insert_paper_def emit_def now_def annotated_paper_def annotated_figures_def
          annotated_trace_def)
qed

theorem storage_failure_not_surfaced_witness:
  "(\<forall>t. db_raises failing_store_world t (Upsert_publication ''PMC123'')) \<and>
   Db (Upsert_publication ''PMC123'') \<in>
     set (new_events empty_state (snd (process_paper_id failing_store_world ''PMC123'' empty_state))) \<and>
   fst (process_paper_id failing_store_world ''PMC123'' empty_state) = Inr annotated_paper \<and>
   publications (snd (process_paper_id failing_store_world ''PMC123'' empty_state)) = [] \<and>
   fst (batch_loop failing_store_world [(''PMC123'', ''PMC123'')] (0, 0) empty_state) = (1, 0) \<and>
   resp_status (fst (extract_one failing_store_world ''PMC123'' empty_state)) = ''success'' \<and>
   publications (snd (extract_one failing_store_world ''PMC123'' empty_state)) = []"
proof -
  have h: "\<forall>t. db_raises failing_store_world t (Upsert_publication ''PMC123'')"
    by (simp add: failing_store_world_fields)
  have up: "upper ''PMC123'' = ''PMC123''"
    by (simp add: upper_def upper_char_def)
  have e1: "Db (Upsert_publication ''PMC123'') \<in>
     set (new_events empty_state (snd (process_paper_id failing_store_world ''PMC123'' empty_state)))"
    by (simp add: failing_run new_events_def annotated_trace_def empty_state_def)
  have e2: "Db (Upsert_publication ''PMC123'') \<in>
     set (new_events empty_state
       (snd (batch_loop failing_store_world [(''PMC123'', ''PMC123'')] (0, 0) empty_state)))"
    using e1 by (simp add: batch_loop_single del: batch_loop.simps)
  have x: "extract_one failing_store_world ''PMC123'' empty_state =
     run_extraction failing_store_world ''PMC123''
       (empty_state\<lparr>trace := [Db Connect, Db (Select_publication ''PMC123'')]\<rparr>)"
    by (simp add: extract_one_def up startswith_def select_publication_def db_exec_def
          failing_store_world_fields emit_def now_def empty_state_def)
  have e3: "Db (Upsert_publication ''PMC123'') \<in>
     set (new_events empty_state (snd (extract_one failing_store_world ''PMC123'' empty_state)))"
    unfolding x
    by (simp add: run_extraction_def failing_run new_events_def annotated_trace_def
          empty_state_def)
  from storage_failure_not_surfaced [OF h, of annotated_paper empty_state "''PMC123''"
         "''PMC123''" 0 0] e1 e2 e3
  show ?thesis
    by (simp add: h failing_run batch_loop_single del: batch_loop.simps)
       (simp add: empty_state_def)
qed

section \<open>The batch watcher\<close>

















end
